theory Spec2Isabelle
  imports Main "HOL-Library.Sublist"
begin

section \<open>Values shared by the whole model\<close>

text \<open>
  The TypeScript sources:
  \<^item> the path algebra, the module that the others import as \<^verbatim>\<open>interfaces/path\<close>
    (\<^verbatim>\<open>src/unnamed/part_001\<close>);
  \<^item> the node transforms, \<^verbatim>\<open>src/packages/slate/src/transforms/node.ts\<close>;
  \<^item> \<^verbatim>\<open>createEditor\<close>, the second module in that same file, with the methods
    \<^verbatim>\<open>apply\<close>, \<^verbatim>\<open>getDirtyPaths\<close>, \<^verbatim>\<open>normalizeNode\<close> and
    \<^verbatim>\<open>addMark\<close> of the editor object.

  What these call and is not among the sources is modelled from the spec and marked so,
  or is a parameter of the function that calls it.

  A JavaScript \<^verbatim>\<open>throw new Error(msg)\<close> is the left injection of a sum; the
  message is kept as the source writes it (the interpolated root path prints as the
  empty string).
\<close>

datatype error = Error string

text \<open>Property values of a node (marks such as \<^verbatim>\<open>bold: true\<close>).\<close>

datatype jsvalue = JBool bool | JNum int | JStr string | JNull

type_synonym props = "(string \<times> jsvalue) list"

text \<open>
  A node is a text leaf (its characters and its other properties) or an element (its
  other properties and its children).
\<close>

datatype node = Text string props | Element props "node list"

section \<open>Path algebra (\<^verbatim>\<open>src/unnamed/part_001\<close>)\<close>

text \<open>
  \<^verbatim>\<open>type Path = number[]\<close>. The components are integers; they are modelled as
  unbounded \<open>int\<close> (and not as \<open>nat\<close>) because \<^verbatim>\<open>Path.previous\<close> and the
  decrements of \<^verbatim>\<open>Path.transform\<close> subtract without a guard.
\<close>

type_synonym path = "int list"

text \<open>
  \<^verbatim>\<open>xs.slice(0, e)\<close>: a negative end counts from the end of the array, and both
  bounds are clamped to the array.
\<close>

definition slice0 :: "'a list \<Rightarrow> int \<Rightarrow> 'a list" where
  "slice0 xs e =
     (let n = int (length xs);
          k = (if e < 0 then max (n + e) 0 else min e n)
      in take (nat k) xs)"

text \<open>
  \<^verbatim>\<open>xs[i]\<close>: reading outside the array gives \<^verbatim>\<open>undefined\<close>, here
  \<open>None\<close>.
\<close>

definition at_index :: "'a list \<Rightarrow> int \<Rightarrow> 'a option" where
  "at_index xs i = (if 0 \<le> i \<and> i < int (length xs) then Some (xs ! nat i) else None)"

text \<open>
  \<^verbatim>\<open>a < b\<close> on numbers that may be \<^verbatim>\<open>undefined\<close>: a comparison with
  \<^verbatim>\<open>undefined\<close> is false.
\<close>

fun js_less :: "int option \<Rightarrow> int option \<Rightarrow> bool" where
  "js_less (Some a) (Some b) = (a < b)"
| "js_less _ _ = False"

text \<open>
  \<^verbatim>\<open>p[i] += d\<close> on the draft that \<^verbatim>\<open>produce\<close> hands to the recipe. Inside
  the array the component is updated. With \<open>i = -1\<close> (the empty path, where
  \<^verbatim>\<open>p.length - 1\<close> is \<open>-1\<close>) the assignment sets the property \<^verbatim>\<open>"-1"\<close> of
  the array object to \<^verbatim>\<open>NaN\<close>; the elements and the length of the array stay as
  they are, which is what the model keeps. An index at or beyond the length never occurs
  in \<^verbatim>\<open>Path.transform\<close> (lemma \<open>endsBefore_index_in_range\<close> below).
\<close>

definition add_at :: "path \<Rightarrow> int \<Rightarrow> int \<Rightarrow> path" where
  "add_at p i d = (if 0 \<le> i \<and> i < int (length p) then p[nat i := p ! nat i + d] else p)"

text \<open>
  \<^verbatim>\<open>Path.compare\<close>: the loop over \<^verbatim>\<open>i < Math.min(path.length, another.length)\<close>
  as a recursion over both arrays at once.
\<close>

fun compare :: "path \<Rightarrow> path \<Rightarrow> int" where
  "compare (a # as) (b # bs) =
     (if a < b then - 1 else if a > b then 1 else compare as bs)"
| "compare _ _ = 0"

text \<open>
  \<^verbatim>\<open>path.length === another.length && path.every((n, i) => n === another[i])\<close>
\<close>

definition equals :: "path \<Rightarrow> path \<Rightarrow> bool" where
  "equals path another =
     (length path = length another \<and>
      list_all (\<lambda>(n, i). Some n = at_index another (int i)) (zip path [0..<length path]))"

definition isAfter :: "path \<Rightarrow> path \<Rightarrow> bool" where
  "isAfter path another = (compare path another = 1)"

definition isAncestor :: "path \<Rightarrow> path \<Rightarrow> bool" where
  "isAncestor path another = (length path < length another \<and> compare path another = 0)"

definition isBefore :: "path \<Rightarrow> path \<Rightarrow> bool" where
  "isBefore path another = (compare path another = - 1)"

fun common :: "path \<Rightarrow> path \<Rightarrow> path" where
  "common (av # as) (bv # bs) = (if av \<noteq> bv then [] else av # common as bs)"
| "common _ _ = []"

definition isCommon :: "path \<Rightarrow> path \<Rightarrow> bool" where
  "isCommon path another = (length path \<le> length another \<and> compare path another = 0)"

definition "next" :: "path \<Rightarrow> error + path" where
  "next path =
     (if length path = 0
      then Inl (Error ''Cannot get the next path of a root path [], because it has no next index.'')
      else (let last = path ! (length path - 1)
            in Inr (slice0 path (- 1) @ [last + 1])))"

text \<open>The message of \<^verbatim>\<open>previous\<close> is the one of \<^verbatim>\<open>next\<close> in the source.\<close>

definition previous :: "path \<Rightarrow> error + path" where
  "previous path =
     (if length path = 0
      then Inl (Error ''Cannot get the next path of a root path [], because it has no next index.'')
      else (let last = path ! (length path - 1)
            in Inr (slice0 path (- 1) @ [last - 1])))"

definition parent :: "path \<Rightarrow> error + path" where
  "parent path =
     (if length path = 0
      then Inl (Error ''Cannot get the parent path of the root path [].'')
      else Inr (slice0 path (- 1)))"

text \<open>
  \<^verbatim>\<open>for (let i = 0; i <= path.length; i++) list.push(path.slice(0, i))\<close>
\<close>

definition levels :: "path \<Rightarrow> path list" where
  "levels path = map (\<lambda>i. slice0 path (int i)) [0..<Suc (length path)]"

definition ancestors :: "path \<Rightarrow> path list" where
  "ancestors path = slice0 (levels path) (- 1)"

definition endsBefore :: "path \<Rightarrow> path \<Rightarrow> bool" where
  "endsBefore path another =
     (let i = int (length path) - 1;
          as = slice0 path i;
          bs = slice0 another i;
          av = at_index path i;
          bv = at_index another i
      in equals as bs \<and> js_less av bv)"

section \<open>Points, ranges and operations\<close>

text \<open>
  \<^verbatim>\<open>Point = { path, offset }\<close> and \<^verbatim>\<open>Range = { anchor, focus }\<close>. The
  selectors carry a prefix so that \<open>path\<close> and \<open>offset\<close> stay free as variable
  names, which the source uses throughout.
\<close>

record point =
  point_path :: path
  point_offset :: nat

record range =
  anchor :: point
  focus :: point

text \<open>
  The operations, read off the \<^verbatim>\<open>op.type\<close> cases of \<^verbatim>\<open>Path.transform\<close> and
  \<^verbatim>\<open>getDirtyPaths\<close> and off the object literals that the transforms pass to
  \<^verbatim>\<open>editor.apply\<close> (the declaration of \<^verbatim>\<open>Operation\<close> is not among the
  sources). \<open>Set_selection\<close> carries the new selection.
\<close>

datatype operation =
    Insert_node path node
  | Remove_node path
  | Set_node path props
  | Split_node path nat
  | Merge_node path nat
  | Insert_text path nat string
  | Remove_text path nat string
  | Set_selection "range option"

text \<open>
  \<^verbatim>\<open>PathRefOptions = { affinity?: 'forward' | 'backward' | null }\<close>: the field may be
  absent (\<open>None\<close>), and so may the whole options object.
\<close>

datatype affinity = Forward | Backward | Null_affinity

record PathRefOptions =
  affinity :: "affinity option"

text \<open>
  \<^verbatim>\<open>const { affinity = 'forward' } = options || {}\<close>: the default applies when the
  options or the field are absent, not when the field is \<^verbatim>\<open>null\<close>.
\<close>

definition affinity_of :: "PathRefOptions option \<Rightarrow> affinity" where
  "affinity_of options =
     (case options of
        None \<Rightarrow> Forward
      | Some os \<Rightarrow> (case affinity os of None \<Rightarrow> Forward | Some a \<Rightarrow> a))"

text \<open>
  \<^verbatim>\<open>Path.transform\<close>. \<^verbatim>\<open>produce(path, recipe)\<close> returns what the recipe
  returns (\<^verbatim>\<open>null\<close>, here \<open>None\<close>), else the draft as the recipe left it. The
  second \<^verbatim>\<open>case 'remove_node'\<close> of the source's \<^verbatim>\<open>switch\<close> is never reached.
\<close>

definition transform :: "path option \<Rightarrow> operation \<Rightarrow> PathRefOptions option \<Rightarrow> path option" where
  "transform path_or_null op options =
     (let affinity = affinity_of options
      in case path_or_null of
           None \<Rightarrow> None
         | Some p \<Rightarrow>
             (case op of
                Insert_node op_path _ \<Rightarrow>
                  if equals op_path p \<or> endsBefore op_path p
                  then Some (add_at p (int (length p) - 1) 1)
                  else Some p
              | Remove_node op_path \<Rightarrow>
                  if equals op_path p \<or> isAncestor op_path p then None
                  else if endsBefore op_path p
                  then Some (add_at p (int (length p) - 1) (- 1))
                  else Some p
              | Split_node path _ \<Rightarrow>
                  if equals path p
                  then (if affinity = Forward then Some (add_at p (int (length p) - 1) 1)
                        else if affinity = Backward then Some p
                        else None)
                  else if endsBefore path p
                  then Some (add_at p (int (length path) - 1) 1)
                  else Some p
              | Merge_node op_path _ \<Rightarrow>
                  if equals op_path p \<or> endsBefore op_path p
                  then Some (add_at p (int (length p) - 1) (- 1))
                  else Some p
              | _ \<Rightarrow> Some p))"

text \<open>
  \<^verbatim>\<open>getDirtyPaths\<close> of the editor object; it reads nothing of the editor.
  \<^verbatim>\<open>Path.next\<close> and \<^verbatim>\<open>Path.previous\<close> may throw, and then so does it.
\<close>

definition getDirtyPaths :: "operation \<Rightarrow> error + path list" where
  "getDirtyPaths op =
     (case op of
        Split_node path _ \<Rightarrow>
          (let ancestor = levels path
           in case next path of
                Inl e \<Rightarrow> Inl e
              | Inr nextPath \<Rightarrow> Inr (ancestor @ [nextPath]))
      | Insert_text path _ _ \<Rightarrow> Inr (levels path)
      | Remove_text path _ _ \<Rightarrow> Inr (levels path)
      | Set_node path _ \<Rightarrow> Inr (levels path)
      | Insert_node path _ \<Rightarrow> Inr (levels path)
      | Merge_node path _ \<Rightarrow>
          (let ancestors = ancestors path
           in case previous path of
                Inl e \<Rightarrow> Inl e
              | Inr prev \<Rightarrow> Inr (prev # ancestors))
      | Remove_node path \<Rightarrow> Inr (ancestors path)
      | _ \<Rightarrow> Inr [])"

text \<open>
  Modelled from the spec: \<^verbatim>\<open>Point.transform\<close> (its module is not among the
  sources). The spec, section 4.2: point references "additionally rebase each
  constituent Path and recompute offsets when splits/merges happen at the exact path", and
  a reference whose rebase yields null is dead. For a split at the point's own path, a
  point right of the split position moves into the new right-hand half and its offset is
  counted from there; for a merge at the point's own path, the offset is counted from
  the start of the merged leaf.
\<close>

definition Point_transform :: "point option \<Rightarrow> operation \<Rightarrow> PathRefOptions option \<Rightarrow> point option" where
  "Point_transform point_or_null op options =
     (case point_or_null of
        None \<Rightarrow> None
      | Some pt \<Rightarrow>
          (let path = point_path pt; offset = point_offset pt;
               rebased = (case transform (Some path) op options of
                            None \<Rightarrow> None
                          | Some q \<Rightarrow> Some (pt\<lparr>point_path := q\<rparr>))
           in case op of
                Split_node op_path position \<Rightarrow>
                  if equals op_path path
                  then (if position = offset \<and> affinity_of options = Null_affinity then None
                        else if position < offset \<or> (position = offset \<and> affinity_of options = Forward)
                        then (case transform (Some path) op (Some \<lparr>affinity = Some Forward\<rparr>) of
                                None \<Rightarrow> None
                              | Some q \<Rightarrow> Some \<lparr>point_path = q, point_offset = offset - position\<rparr>)
                        else Some pt)
                  else rebased
              | Merge_node op_path position \<Rightarrow>
                  (case transform (Some path) op options of
                     None \<Rightarrow> None
                   | Some q \<Rightarrow>
                       Some \<lparr>point_path = q,
                             point_offset = (if equals op_path path then offset + position else offset)\<rparr>)
              | _ \<Rightarrow> rebased))"

section \<open>The editor (\<^verbatim>\<open>createEditor\<close>) and the node transforms\<close>

subsection \<open>State\<close>

text \<open>
  A path reference as \<^verbatim>\<open>Path.transform\<close> sees it: its current path (null once the
  node it points to is removed) and the affinity it was created with.
\<close>

record path_ref =
  current :: "path option"
  ref_affinity :: affinity

text \<open>
  The job that \<^verbatim>\<open>apply\<close> hands to \<^verbatim>\<open>Promise.resolve().then\<close>:
  \<^verbatim>\<open>() => { editor.onChange(); editor.operations = [] }\<close>.
\<close>

datatype microtask = NotifyAndReset

text \<open>
  The editor object together with what the sources keep beside it:
  \<^item> \<open>children\<close>, \<open>selection\<close>, \<open>operations\<close>, \<open>marks\<close>: the fields of the object
    that \<^verbatim>\<open>createEditor\<close> builds;
  \<^item> \<open>dirty_paths\<close>: \<^verbatim>\<open>DIRTY_PATHS.get(editor)\<close> (the set
    \<^verbatim>\<open>DIRTY_PATHS_KEYS\<close> holds the same paths, joined by commas);
  \<^item> \<open>path_refs\<close>: \<^verbatim>\<open>Editor.pathRefs(editor)\<close>, each reference under the number
    it was created with;
  \<^item> \<open>batch_depth\<close>: how many \<^verbatim>\<open>withoutNormalizing\<close> scopes are open;
  \<^item> \<open>microtasks\<close>: the jobs queued for the end of the current synchronous turn;
  \<^item> \<open>onChange_calls\<close>: how often the callback \<^verbatim>\<open>editor.onChange\<close> has run. The
    callback belongs to the caller (\<^verbatim>\<open>() => {}\<close> by default) and is taken to leave
    the editor alone.

  \<^verbatim>\<open>apply\<close> also rebases the point and range references; none of the functions
  modelled here reads them, and their registries are left out of the state.
\<close>

record editor =
  children :: "node list"
  selection :: "range option"
  operations :: "operation list"
  marks :: "props option"
  dirty_paths :: "path list"
  path_refs :: "(nat \<times> path_ref) list"
  batch_depth :: nat
  microtasks :: "microtask list"
  onChange_calls :: nat

definition createEditor :: editor where
  "createEditor =
     \<lparr>children = [], selection = None, operations = [], marks = None, dirty_paths = [],
      path_refs = [], batch_depth = 0, microtasks = [], onChange_calls = 0\<rparr>"

text \<open>
  The end of a synchronous turn: the queued jobs run in the order they were queued.
\<close>

definition run_microtask :: "microtask \<Rightarrow> editor \<Rightarrow> editor" where
  "run_microtask job e = e\<lparr>onChange_calls := onChange_calls e + 1, operations := []\<rparr>"

definition end_of_turn :: "editor \<Rightarrow> editor" where
  "end_of_turn e = fold run_microtask (microtasks e) (e\<lparr>microtasks := []\<rparr>)"

subsection \<open>The tree\<close>

text \<open>
  Modelled from the spec: the editor as the root of the tree, section 3: "The document
  root is an Element whose children are top-level block nodes" (the declarations of
  \<^verbatim>\<open>Editor\<close> and \<^verbatim>\<open>Element\<close> are not among the sources).
\<close>

definition root :: "editor \<Rightarrow> node" where
  "root e = Element [] (children e)"

text \<open>
  Modelled from the spec: following a path from a node, section 3: a path is "the
  sequence of child-indices from the root to a node"; a path that leads nowhere gives
  \<open>None\<close>.
\<close>

fun get_node :: "node \<Rightarrow> path \<Rightarrow> node option" where
  "get_node n [] = Some n"
| "get_node (Text s ps) (i # p) = None"
| "get_node (Element ps cs) (i # p) =
     (case at_index cs i of None \<Rightarrow> None | Some c \<Rightarrow> get_node c p)"

text \<open>
  Modelled from the spec: \<^verbatim>\<open>Node.get(editor, path)\<close> (its module is not among the
  sources), which throws when the path leads nowhere: section 7, invalid addressing is
  fatal.
\<close>

definition Node_get :: "editor \<Rightarrow> path \<Rightarrow> error + node" where
  "Node_get e path =
     (case get_node (root e) path of
        None \<Rightarrow> Inl (Error ''Cannot find a descendant at path'')
      | Some n \<Rightarrow> Inr n)"

text \<open>
  \<^verbatim>\<open>Transforms.transform\<close>, the structural effect of one operation, is not among the
  sources; it and its parts below are modelled from the spec. Section 4.3, step 2:
  "Execute the operation's structural effect on the tree (insert/remove/set/split/merge
  at the given path), mutating the addressed node and its parent's child list", and a
  selection change replaces the document selection; section 7: an operation whose path
  does not resolve against the tree is rejected before any mutation.
\<close>

text \<open>
  Modelled from the spec: rewriting the child list of the node that a path leads to; the
  path must lead to an element.
\<close>

fun modify_children ::
  "path \<Rightarrow> (node list \<Rightarrow> error + node list) \<Rightarrow> node list \<Rightarrow> error + node list" where
  "modify_children [] f cs = f cs"
| "modify_children (i # p) f cs =
     (case at_index cs i of
        Some (Element ps kids) \<Rightarrow>
          (case modify_children p f kids of
             Inl x \<Rightarrow> Inl x
           | Inr kids' \<Rightarrow> Inr (cs[nat i := Element ps kids']))
      | _ \<Rightarrow> Inl (Error ''Cannot find a descendant at path''))"

text \<open>
  Modelled from the spec: an operation at a path works on "its parent's child list", at
  the last index of the path; the root path has no parent (\<^verbatim>\<open>Path.parent\<close> throws).
\<close>

definition at_parent ::
  "path \<Rightarrow> (int \<Rightarrow> node list \<Rightarrow> error + node list) \<Rightarrow> node list \<Rightarrow> error + node list" where
  "at_parent path f cs =
     (case parent path of
        Inl x \<Rightarrow> Inl x
      | Inr pp \<Rightarrow> modify_children pp (f (path ! (length path - 1))) cs)"

text \<open>
  Modelled from the spec: \<^verbatim>\<open>set_node(path, newProperties)\<close>; the new properties
  replace the old ones of the same key.
\<close>

definition set_props :: "props \<Rightarrow> props \<Rightarrow> props" where
  "set_props newProperties ps =
     newProperties @ filter (\<lambda>(k, v). k \<notin> set (map fst newProperties)) ps"

text \<open>
  Modelled from the spec: \<^verbatim>\<open>insert_node\<close>; the node is put at the index, which is at
  most the number of children.
\<close>

definition insert_child :: "node \<Rightarrow> int \<Rightarrow> node list \<Rightarrow> error + node list" where
  "insert_child n i cs =
     (if 0 \<le> i \<and> i \<le> int (length cs)
      then Inr (take (nat i) cs @ [n] @ drop (nat i) cs)
      else Inl (Error ''Cannot insert a node at an index beyond the children''))"

text \<open>Modelled from the spec: \<^verbatim>\<open>remove_node\<close>; the child at the index goes.\<close>

definition remove_child :: "int \<Rightarrow> node list \<Rightarrow> error + node list" where
  "remove_child i cs =
     (if 0 \<le> i \<and> i < int (length cs)
      then Inr (take (nat i) cs @ drop (Suc (nat i)) cs)
      else Inl (Error ''Cannot find a descendant at path''))"

text \<open>Modelled from the spec: \<^verbatim>\<open>set_node\<close> on the child at the index.\<close>

definition set_child :: "props \<Rightarrow> int \<Rightarrow> node list \<Rightarrow> error + node list" where
  "set_child newProperties i cs =
     (case at_index cs i of
        None \<Rightarrow> Inl (Error ''Cannot find a descendant at path'')
      | Some (Text s ps) \<Rightarrow> Inr (cs[nat i := Text s (set_props newProperties ps)])
      | Some (Element ps kids) \<Rightarrow> Inr (cs[nat i := Element (set_props newProperties ps) kids]))"

text \<open>
  Modelled from the spec: \<^verbatim>\<open>split_node(path, position)\<close>; a text is split at the
  character position, an element at the child position; both halves keep the properties,
  and the right-hand half becomes the next sibling.
\<close>

definition split_child :: "nat \<Rightarrow> int \<Rightarrow> node list \<Rightarrow> error + node list" where
  "split_child position i cs =
     (case at_index cs i of
        None \<Rightarrow> Inl (Error ''Cannot find a descendant at path'')
      | Some (Text s ps) \<Rightarrow>
          Inr (take (nat i) cs @ [Text (take position s) ps, Text (drop position s) ps] @
               drop (Suc (nat i)) cs)
      | Some (Element ps kids) \<Rightarrow>
          Inr (take (nat i) cs @ [Element ps (take position kids), Element ps (drop position kids)] @
               drop (Suc (nat i)) cs))"

text \<open>
  Modelled from the spec: \<^verbatim>\<open>merge_node(path, position)\<close>; "the node is absorbed into
  its predecessor", text into text and children into children.
\<close>

definition merge_child :: "int \<Rightarrow> node list \<Rightarrow> error + node list" where
  "merge_child i cs =
     (case (at_index cs (i - 1), at_index cs i) of
        (Some (Text s ps), Some (Text s' ps')) \<Rightarrow>
          Inr (take (nat (i - 1)) cs @ [Text (s @ s') ps] @ drop (Suc (nat i)) cs)
      | (Some (Element ps kids), Some (Element ps' kids')) \<Rightarrow>
          Inr (take (nat (i - 1)) cs @ [Element ps (kids @ kids')] @ drop (Suc (nat i)) cs)
      | _ \<Rightarrow> Inl (Error ''Cannot merge the node at path with the previous sibling''))"

text \<open>
  Modelled from the spec: the text operations \<^verbatim>\<open>insert_text\<close> and
  \<^verbatim>\<open>remove_text\<close>, which \<^verbatim>\<open>getDirtyPaths\<close> knows; they rewrite the characters of
  the text leaf at the index.
\<close>

definition text_child :: "(string \<Rightarrow> string) \<Rightarrow> int \<Rightarrow> node list \<Rightarrow> error + node list" where
  "text_child f i cs =
     (case at_index cs i of
        Some (Text s ps) \<Rightarrow> Inr (cs[nat i := Text (f s) ps])
      | _ \<Rightarrow> Inl (Error ''Cannot find a text node at path''))"

text \<open>Modelled from the spec: the effect of an operation on the children of the root.\<close>

definition transform_children :: "node list \<Rightarrow> operation \<Rightarrow> error + node list" where
  "transform_children cs op =
     (case op of
        Insert_node path n \<Rightarrow> at_parent path (insert_child n) cs
      | Remove_node path \<Rightarrow> at_parent path remove_child cs
      | Set_node path newProperties \<Rightarrow> at_parent path (set_child newProperties) cs
      | Split_node path position \<Rightarrow> at_parent path (split_child position) cs
      | Merge_node path position \<Rightarrow> at_parent path merge_child cs
      | Insert_text path offset txt \<Rightarrow>
          at_parent path (text_child (\<lambda>s. take offset s @ txt @ drop offset s)) cs
      | Remove_text path offset txt \<Rightarrow>
          at_parent path (text_child (\<lambda>s. take offset s @ drop (offset + length txt) s)) cs
      | Set_selection sel \<Rightarrow> Inr cs)"

text \<open>
  Modelled from the spec: \<^verbatim>\<open>Transforms.transform(editor, op)\<close>; a selection change
  replaces the selection, every other operation changes the tree.
\<close>

definition Transforms_transform :: "editor \<Rightarrow> operation \<Rightarrow> error + editor" where
  "Transforms_transform e op =
     (case op of
        Set_selection sel \<Rightarrow> Inr (e\<lparr>selection := sel\<rparr>)
      | _ \<Rightarrow>
          (case transform_children (children e) op of
             Inl x \<Rightarrow> Inl x
           | Inr cs \<Rightarrow> Inr (e\<lparr>children := cs\<rparr>)))"

text \<open>
  Modelled from the spec: \<^verbatim>\<open>Text.equals(a, b, { isEqualText: false })\<close>
  (its module is not among the sources), section 4.5: "their non-content properties
  are fully equal". The properties are compared as objects: key by key.
\<close>

definition Text_equals :: "props \<Rightarrow> props \<Rightarrow> bool" where
  "Text_equals ps ps' =
     list_all (\<lambda>k. map_of ps k = map_of ps' k) (map fst ps @ map fst ps')"

text \<open>
  Modelled from the spec: \<^verbatim>\<open>Range.isCollapsed\<close> (its module is not among the
  sources), section 3: a range "may be collapsed (anchor==focus)".
\<close>

definition isCollapsed :: "range \<Rightarrow> bool" where
  "isCollapsed r =
     (equals (point_path (anchor r)) (point_path (focus r)) \<and>
      point_offset (anchor r) = point_offset (focus r))"

text \<open>
  Modelled from the spec: \<^verbatim>\<open>Editor.isEdge(editor, point, at)\<close>
  (its module is not among the sources), section 4.4: the point is "at the start or end
  edge of its leaf", that is at offset 0 or at the length of the text of the leaf at
  \<open>at\<close>. A path that does not lead to a text leaf is invalid addressing and fatal.
\<close>

definition isEdge :: "editor \<Rightarrow> point \<Rightarrow> path \<Rightarrow> error + bool" where
  "isEdge e pt at_path =
     (case get_node (root e) at_path of
        Some (Text s ps) \<Rightarrow>
          Inr (equals (point_path pt) at_path \<and>
               (point_offset pt = 0 \<or> point_offset pt = length s))
      | _ \<Rightarrow> Inl (Error ''Cannot get the edge points of a node that is not a text leaf''))"

text \<open>
  Modelled from the spec: the "end of the inserted node" of section 4.4, relative to the
  node: the end of its last text leaf, and nothing for an element without one.
\<close>

fun end_of :: "node \<Rightarrow> (path \<times> nat) option"
  and end_of_children :: "node list \<Rightarrow> int \<Rightarrow> (path \<times> nat) option" where
  "end_of (Text s ps) = Some ([], length s)"
| "end_of (Element ps cs) = end_of_children cs 0"
| "end_of_children [] i = None"
| "end_of_children [c] i = map_option (\<lambda>(p, off). (i # p, off)) (end_of c)"
| "end_of_children (c # d # cs) i = end_of_children (d # cs) (i + 1)"

text \<open>
  Modelled from the spec: \<^verbatim>\<open>Editor.point(editor, path, { edge: 'end' })\<close> (its module
  is not among the sources): the end of the node at the path, as a point.
\<close>

definition Editor_point_end :: "editor \<Rightarrow> path \<Rightarrow> error + point" where
  "Editor_point_end e path =
     (case get_node (root e) path of
        None \<Rightarrow> Inl (Error ''Cannot find a descendant at path'')
      | Some n \<Rightarrow>
          (case end_of n of
             None \<Rightarrow> Inl (Error ''Cannot get the end point in the node at path because it has no end text node.'')
           | Some (p, off) \<Rightarrow> Inr \<lparr>point_path = path @ p, point_offset = off\<rparr>))"

subsection \<open>Path references\<close>

text \<open>
  \<^verbatim>\<open>Editor.pathRef\<close>, \<^verbatim>\<open>PathRef.unref\<close> and \<^verbatim>\<open>PathRef.transform\<close> are
  not among the sources; they are modelled from the spec, section 4.2: on every
  \<^verbatim>\<open>apply\<close> every live reference is rebased by \<^verbatim>\<open>Path.transform\<close>; a reference
  whose rebase yields null is dead; releasing a reference returns its last value and
  removes it from the registry.
\<close>

text \<open>
  Modelled from the spec: \<^verbatim>\<open>Editor.pathRef(editor, path)\<close>; the new reference gets a
  number that no live reference has, and forward affinity (the caller may ask otherwise,
  which \<^verbatim>\<open>insertNode\<close> does not).
\<close>

definition pathRef :: "editor \<Rightarrow> path \<Rightarrow> editor \<times> nat" where
  "pathRef e path =
     (let i = Suc (fold max (map fst (path_refs e)) 0)
      in (e\<lparr>path_refs := path_refs e @ [(i, \<lparr>current = Some path, ref_affinity = Forward\<rparr>)]\<rparr>, i))"

text \<open>
  Modelled from the spec: \<^verbatim>\<open>pathRef.unref()\<close>; the reference leaves the registry and
  its last value is returned, null for a dead one.
\<close>

definition unref :: "editor \<Rightarrow> nat \<Rightarrow> editor \<times> path option" where
  "unref e i =
     (e\<lparr>path_refs := filter (\<lambda>(j, r). j \<noteq> i) (path_refs e)\<rparr>,
      case map_of (path_refs e) i of None \<Rightarrow> None | Some r \<Rightarrow> current r)"

text \<open>
  Modelled from the spec: \<^verbatim>\<open>PathRef.transform(ref, op)\<close>; the current path is rebased
  by \<^verbatim>\<open>Path.transform\<close> under the affinity of the reference.
\<close>

definition PathRef_transform :: "path_ref \<Rightarrow> operation \<Rightarrow> path_ref" where
  "PathRef_transform r op =
     r\<lparr>current := transform (current r) op (Some \<lparr>affinity = Some (ref_affinity r)\<rparr>)\<rparr>"

subsection \<open>\<^verbatim>\<open>editor.apply\<close>\<close>

text \<open>
  The local function \<^verbatim>\<open>add\<close> of \<^verbatim>\<open>apply\<close>: a null path is skipped, and so is
  a path whose key \<^verbatim>\<open>path.join(',')\<close> is in the set already. Two paths have the same
  key exactly when they are equal, so the list itself serves as the set of keys.
\<close>

definition add :: "path option \<Rightarrow> path list \<Rightarrow> path list" where
  "add path_or_null dirtyPaths =
     (case path_or_null of
        None \<Rightarrow> dirtyPaths
      | Some path \<Rightarrow> if path \<in> set dirtyPaths then dirtyPaths else dirtyPaths @ [path])"

text \<open>
  \<^verbatim>\<open>apply\<close>, in the order of the source: the path references are rebased; the old
  dirty paths are rebased (\<^verbatim>\<open>Path.transform(oldPath, op)\<close>, without options) and
  collected, then the new ones (\<^verbatim>\<open>getDirtyPaths\<close> may throw); the operation is
  pushed to the log; \<^verbatim>\<open>Transforms.transform\<close> changes the tree (it may throw);
  a selection change clears the marks; a job is queued. There is no condition on the
  queueing: every call queues a job.
\<close>

definition "apply" :: "editor \<Rightarrow> operation \<Rightarrow> error + editor" where
  "apply e op =
     (let refs = map (\<lambda>(i, r). (i, PathRef_transform r op)) (path_refs e);
          oldDirtyPath = dirty_paths e;
          dirtyPaths = fold (\<lambda>oldPath. add (transform (Some oldPath) op None)) oldDirtyPath []
      in case getDirtyPaths op of
           Inl x \<Rightarrow> Inl x
         | Inr newDirtyPaths \<Rightarrow>
             (let dirtyPaths = fold (\<lambda>path. add (Some path)) newDirtyPaths dirtyPaths;
                  e = e\<lparr>path_refs := refs, operations := operations e @ [op],
                        dirty_paths := dirtyPaths\<rparr>
              in case Transforms_transform e op of
                   Inl x \<Rightarrow> Inl x
                 | Inr e \<Rightarrow>
                     (let e = (case op of Set_selection sel \<Rightarrow> e\<lparr>marks := None\<rparr> | _ \<Rightarrow> e)
                      in Inr (e\<lparr>microtasks := microtasks e @ [NotifyAndReset]\<rparr>))))"

subsection \<open>Batches\<close>

text \<open>
  Modelled from the spec: \<^verbatim>\<open>Editor.withoutNormalizing\<close> (its module is not among
  the sources). The spec, sections 4.4 and 5:
  a transform runs inside a batch scope that suppresses normalization until the
  outermost scope exits; scopes nest, by a depth counter. The normalizer that the
  outermost scope runs on exit is the parameter \<open>nrm\<close>; it is \<open>Editor_normalize\<close>
  below, which is defined after the transforms it calls.
\<close>

definition withoutNormalizing ::
  "(editor \<Rightarrow> error + editor) \<Rightarrow> editor \<Rightarrow> (editor \<Rightarrow> error + editor) \<Rightarrow> error + editor" where
  "withoutNormalizing nrm e fn =
     (case fn (e\<lparr>batch_depth := batch_depth e + 1\<rparr>) of
        Inl x \<Rightarrow> Inl x
      | Inr e \<Rightarrow>
          (let e = e\<lparr>batch_depth := batch_depth e - 1\<rparr>
           in if batch_depth e = 0 then nrm e else Inr e))"

text \<open>
  Modelled from the spec: \<^verbatim>\<open>Transforms.select\<close> (its module is not among the
  sources), section 4.4: \<^verbatim>\<open>insertNode\<close> "moves the selection to end of the inserted
  node"; the move is a \<^verbatim>\<open>set_selection\<close> operation.
\<close>

definition select :: "editor \<Rightarrow> point \<Rightarrow> error + editor" where
  "select e pt = apply e (Set_selection (Some \<lparr>anchor = pt, focus = pt\<rparr>))"

subsection \<open>\<^verbatim>\<open>NodeTransforms\<close>\<close>

text \<open>
  \<^verbatim>\<open>Location = Path | Point | Range\<close>, and the options of \<^verbatim>\<open>insertNode\<close>, each
  of which may be absent.
\<close>

datatype location = At_path path | At_point point | At_range range

record insert_options =
  opt_select :: "bool option"
  opt_at :: "location option"

definition splitNodes :: "(editor \<Rightarrow> error + editor) \<Rightarrow> editor \<Rightarrow> point \<Rightarrow> error + editor" where
  "splitNodes nrm e at =
     withoutNormalizing nrm e (\<lambda>e.
       case isEdge e at (point_path at) of
         Inl x \<Rightarrow> Inl x
       | Inr edge \<Rightarrow>
           if edge then Inr e
           else apply e (Split_node (point_path at) (point_offset at)))"

text \<open>
  \<^verbatim>\<open>insertNode\<close>, in the three steps the source marks. The first turns \<open>at\<close>
  into a path: a range becomes a point, a point becomes a path.

  For a range that is not collapsed the source deletes the range under a point reference
  on its end (\<^verbatim>\<open>Editor.pointRef\<close>, \<^verbatim>\<open>Transforms.delete\<close>,
  \<^verbatim>\<open>pointRef.unref\<close>); none of the three is among the sources, and the parameter
  \<open>delete_range\<close> stands for them: it returns the editor after the deletion and the
  value of the released reference.

  The non-null assertions (\<^verbatim>\<open>!\<close>) are erased at run time: a null \<open>at\<close> reaches
  \<^verbatim>\<open>if (!at) return\<close>, and \<^verbatim>\<open>Path.next(null)\<close> throws a \<^verbatim>\<open>TypeError\<close>.
\<close>

definition insertNode_range ::
  "(editor \<Rightarrow> range \<Rightarrow> error + editor \<times> point option) \<Rightarrow> editor \<Rightarrow> location option \<Rightarrow>
   error + editor \<times> location option" where
  "insertNode_range delete_range e at =
     (case at of
        Some (At_range r) \<Rightarrow>
          if isCollapsed r then Inr (e, Some (At_point (anchor r)))
          else (case delete_range e r of
                  Inl x \<Rightarrow> Inl x
                | Inr (e', pt) \<Rightarrow> Inr (e', map_option At_point pt))
      | _ \<Rightarrow> Inr (e, at))"

text \<open>
  The point case, lines 64 to 74 of the source. \<open>split_with_ref\<close> is lines 68 to
  70: the path reference is taken on the path of the point, the tree is split, and the
  reference is released; its value is the \<open>path\<close> of the source. \<open>isAtEnd\<close> is
  read before that, and \<open>at\<close> is \<^verbatim>\<open>isAtEnd ? Path.next(path) : path\<close>. (After the
  first step \<open>at\<close> is no range any more.)
\<close>

definition split_with_ref ::
  "(editor \<Rightarrow> error + editor) \<Rightarrow> editor \<Rightarrow> point \<Rightarrow> error + editor \<times> path option" where
  "split_with_ref nrm e pt =
     (let (e1, r) = pathRef e (point_path pt)
      in case splitNodes nrm e1 pt of
           Inl x \<Rightarrow> Inl x
         | Inr e2 \<Rightarrow> Inr (unref e2 r))"

definition insertNode_point ::
  "(editor \<Rightarrow> error + editor) \<Rightarrow> editor \<Rightarrow> location option \<Rightarrow> error + editor \<times> path option" where
  "insertNode_point nrm e at =
     (case at of
        None \<Rightarrow> Inr (e, None)
      | Some (At_path path) \<Rightarrow> Inr (e, Some path)
      | Some (At_range r) \<Rightarrow> Inr (e, None)
      | Some (At_point pt) \<Rightarrow>
          (case isEdge e pt (point_path pt) of
             Inl x \<Rightarrow> Inl x
           | Inr isAtEnd \<Rightarrow>
               (case split_with_ref nrm e pt of
                  Inl x \<Rightarrow> Inl x
                | Inr (e3, path) \<Rightarrow>
                    if isAtEnd
                    then (case path of
                            None \<Rightarrow> Inl (Error ''TypeError: Cannot read properties of null'')
                          | Some path \<Rightarrow>
                              (case next path of
                                 Inl x \<Rightarrow> Inl x
                               | Inr next_path \<Rightarrow> Inr (e3, Some next_path)))
                    else Inr (e3, path))))"

text \<open>The second and third step: the operation, and the selection on the new node.\<close>

definition insertNode_insert :: "editor \<Rightarrow> node \<Rightarrow> bool \<Rightarrow> path option \<Rightarrow> error + editor" where
  "insertNode_insert e n sel at =
     (case at of
        None \<Rightarrow> Inr e
      | Some path \<Rightarrow>
          (case apply e (Insert_node path n) of
             Inl x \<Rightarrow> Inl x
           | Inr e1 \<Rightarrow>
               if sel
               then (case Editor_point_end e1 path of
                       Inl x \<Rightarrow> Inl x
                     | Inr pt \<Rightarrow> select e1 pt)
               else Inr e1))"

definition insertNode ::
  "(editor \<Rightarrow> error + editor) \<Rightarrow> (editor \<Rightarrow> range \<Rightarrow> error + editor \<times> point option) \<Rightarrow>
   editor \<Rightarrow> node \<Rightarrow> insert_options option \<Rightarrow> error + editor" where
  "insertNode nrm delete_range e n options =
     withoutNormalizing nrm e (\<lambda>e.
       let sel = (case options of
                    None \<Rightarrow> True
                  | Some os \<Rightarrow> (case opt_select os of None \<Rightarrow> True | Some b \<Rightarrow> b));
           at = (case options of
                   None \<Rightarrow> map_option At_range (selection e)
                 | Some os \<Rightarrow>
                     (case opt_at os of
                        None \<Rightarrow> map_option At_range (selection e)
                      | Some l \<Rightarrow> Some l))
       in case insertNode_range delete_range e at of
            Inl x \<Rightarrow> Inl x
          | Inr (e1, at1) \<Rightarrow>
              (case insertNode_point nrm e1 at1 of
                 Inl x \<Rightarrow> Inl x
               | Inr (e2, at2) \<Rightarrow> insertNode_insert e2 n sel at2))"

definition mergeNodes ::
  "(editor \<Rightarrow> error + editor) \<Rightarrow> editor \<Rightarrow> path \<Rightarrow> nat \<Rightarrow> error + editor" where
  "mergeNodes nrm e at position =
     withoutNormalizing nrm e (\<lambda>e. apply e (Merge_node at position))"

definition removeNode :: "(editor \<Rightarrow> error + editor) \<Rightarrow> editor \<Rightarrow> path \<Rightarrow> error + editor" where
  "removeNode nrm e at = withoutNormalizing nrm e (\<lambda>e. apply e (Remove_node at))"

subsection \<open>\<^verbatim>\<open>normalizeNode\<close> and the normalization pass\<close>

text \<open>
  The loop of \<^verbatim>\<open>normalizeNode\<close> over \<^verbatim>\<open>node.children\<close>, the children of the
  entry as they were when the entry was fetched; \<open>n\<close> is the index into the children
  as they are now. Each round fetches the node at \<open>path\<close> again (\<^verbatim>\<open>Node.get\<close>
  throws when it is gone, and reading \<^verbatim>\<open>children[n - 1]\<close> of a text throws a
  \<^verbatim>\<open>TypeError\<close>). After a merge or a removal \<^verbatim>\<open>n--\<close> and the loop's
  \<^verbatim>\<open>n++\<close> cancel.
\<close>

fun normalizeNode_loop ::
  "(editor \<Rightarrow> error + editor) \<Rightarrow> path \<Rightarrow> node list \<Rightarrow> int \<Rightarrow> editor \<Rightarrow> error + editor" where
  "normalizeNode_loop nrm path [] n e = Inr e"
| "normalizeNode_loop nrm path (child # rest) n e =
     (case Node_get e path of
        Inl x \<Rightarrow> Inl x
      | Inr (Text s ps) \<Rightarrow> Inl (Error ''TypeError: Cannot read properties of undefined'')
      | Inr (Element ps cs) \<Rightarrow>
          (case (child, at_index cs (n - 1)) of
             (Text child_text child_props, Some (Text prev_text prev_props)) \<Rightarrow>
               if Text_equals child_props prev_props
               then (case mergeNodes nrm e (path @ [n]) (length prev_text) of
                       Inl x \<Rightarrow> Inl x
                     | Inr e \<Rightarrow> normalizeNode_loop nrm path rest n e)
               else if child_text = []
               then (case removeNode nrm e (path @ [n]) of
                       Inl x \<Rightarrow> Inl x
                     | Inr e \<Rightarrow> normalizeNode_loop nrm path rest n e)
               else normalizeNode_loop nrm path rest (n + 1) e
           | _ \<Rightarrow> normalizeNode_loop nrm path rest (n + 1) e))"

text \<open>
  \<^verbatim>\<open>normalizeNode\<close>: a text is left alone; an element without children gets an empty
  text leaf, by \<^verbatim>\<open>Transforms.insertNode(editor, { text: '' }, { at: path.concat(0) })\<close>
  (so with the default \<open>select\<close>); otherwise the loop above runs. The children of
  an element that are elements themselves are left to a \<^verbatim>\<open>TODO\<close>.
\<close>

definition normalizeNode ::
  "(editor \<Rightarrow> error + editor) \<Rightarrow> (editor \<Rightarrow> range \<Rightarrow> error + editor \<times> point option) \<Rightarrow>
   editor \<Rightarrow> node \<times> path \<Rightarrow> error + editor" where
  "normalizeNode nrm delete_range e entry =
     (case entry of
        (Text s ps, path) \<Rightarrow> Inr e
      | (Element ps cs, path) \<Rightarrow>
          if length cs = 0
          then insertNode nrm delete_range e (Text [] [])
                 (Some \<lparr>opt_select = None, opt_at = Some (At_path (path @ [0]))\<rparr>)
          else normalizeNode_loop nrm path cs 0 e)"

text \<open>
  \<^verbatim>\<open>Editor.normalize\<close> is not among the sources; the pass is modelled from the spec,
  section 4.5: it runs when no batch scope is open; it takes the dirty paths one by one,
  fetches the node now at the path (skipping a path that leads nowhere) and hands it to
  \<^verbatim>\<open>normalizeNode\<close>, whose corrective transforms go through \<^verbatim>\<open>apply\<close> again
  and so add dirty paths, until none is left.
\<close>

text \<open>
  Modelled from the spec: the rounds of the pass. Section 5 allows a bound on the rounds
  that turns a pass that never settles into an error; \<open>m\<close> is what is left of it. The
  paths are taken from the end of the list. The pass runs inside a scope of its own, so
  the scopes that its corrective transforms open are inner ones, which run no normalizer
  when they close: the pass hands them \<open>Inr\<close>.
\<close>

fun Editor_normalize_loop ::
  "(editor \<Rightarrow> range \<Rightarrow> error + editor \<times> point option) \<Rightarrow> nat \<Rightarrow> editor \<Rightarrow> error + editor" where
  "Editor_normalize_loop delete_range 0 e =
     (if dirty_paths e = [] then Inr e
      else Inl (Error ''Could not completely normalize the editor''))"
| "Editor_normalize_loop delete_range (Suc m) e =
     (if dirty_paths e = [] then Inr e
      else (let dirtyPath = last (dirty_paths e);
                e1 = e\<lparr>dirty_paths := butlast (dirty_paths e)\<rparr>
            in case get_node (root e1) dirtyPath of
                 None \<Rightarrow> Editor_normalize_loop delete_range m e1
               | Some n \<Rightarrow>
                   (case normalizeNode Inr delete_range e1 (n, dirtyPath) of
                      Inl x \<Rightarrow> Inl x
                    | Inr e2 \<Rightarrow> Editor_normalize_loop delete_range m e2)))"

text \<open>
  Modelled from the spec: \<^verbatim>\<open>Editor.normalize(editor)\<close>; nothing happens inside a
  batch scope; otherwise the rounds run inside a scope, at most 42 for each dirty path
  the pass starts with.
\<close>

definition Editor_normalize ::
  "(editor \<Rightarrow> range \<Rightarrow> error + editor \<times> point option) \<Rightarrow> editor \<Rightarrow> error + editor" where
  "Editor_normalize delete_range e =
     (if batch_depth e \<noteq> 0 then Inr e
      else withoutNormalizing Inr e
             (Editor_normalize_loop delete_range (42 * length (dirty_paths e))))"

subsection \<open>\<^verbatim>\<open>addMark\<close>\<close>

text \<open>
  \<^verbatim>\<open>addMark\<close>. With a collapsed selection the marks become the object literal
  \<^verbatim>\<open>{ [key]: value }\<close> and \<^verbatim>\<open>editor.onChange()\<close> is called then and there.
  Otherwise the work goes to \<^verbatim>\<open>Transforms.setNode\<close>, which rests on range
  references and \<^verbatim>\<open>Node.texts\<close>, neither among the sources; the parameter
  \<open>setNode\<close> stands for it.
\<close>

definition addMark ::
  "(editor \<Rightarrow> props \<Rightarrow> error + editor) \<Rightarrow> editor \<Rightarrow> string \<Rightarrow> jsvalue \<Rightarrow> error + editor" where
  "addMark setNode e key val =
     (case selection e of
        None \<Rightarrow> Inr e
      | Some sel \<Rightarrow>
          if isCollapsed sel
          then (let e = e\<lparr>marks := Some [(key, val)]\<rparr>
                in Inr (e\<lparr>onChange_calls := onChange_calls e + 1\<rparr>))
          else setNode e [(key, val)])"

section \<open>Properties of the path algebra\<close>

subsection \<open>The helpers and the predicates in terms of lists\<close>

lemma slice0_nat: "slice0 xs (int i) = take i xs"
  by (simp add: slice0_def min_def)

lemma slice0_minus1: "slice0 xs (- 1) = butlast xs"
  by (cases "xs = []") (simp_all add: slice0_def butlast_conv_take nat_diff_distrib' max_def)

lemma slice0_length_minus1:
  "slice0 xs (int (length ys) - 1) = (if ys = [] then butlast xs else take (length ys - 1) xs)"
proof (cases ys)
  case Nil
  then show ?thesis by (simp add: slice0_minus1)
next
  case (Cons y ys')
  then have "int (length ys) - 1 = int (length ys')" by simp
  with Cons show ?thesis by (simp add: slice0_nat)
qed

lemma list_all_zip_upt:
  "list_all P (zip xs [0..<length xs]) \<longleftrightarrow> (\<forall>i<length xs. P (xs ! i, i))"
proof -
  have "set (zip xs [0..<length xs]) = {(xs ! i, i) | i. i < length xs}"
    by (auto simp: set_zip)
  then show ?thesis by (auto simp: list_all_iff)
qed

lemma equals_iff: "equals p q \<longleftrightarrow> p = q"
proof -
  have "equals p q \<longleftrightarrow> length p = length q \<and> (\<forall>i<length p. p ! i = q ! i)"
    by (auto simp: equals_def list_all_zip_upt at_index_def)
  then show ?thesis
    by (simp add: list_eq_iff_nth_eq)
qed

lemma compare_zero_iff: "compare p q = 0 \<longleftrightarrow> take (length q) p = take (length p) q"
  by (induction p q rule: compare.induct) auto

lemma isAncestor_iff: "isAncestor p q \<longleftrightarrow> strict_prefix p q"
proof -
  have "strict_prefix p q \<longleftrightarrow> length p < length q \<and> take (length p) q = p"
  proof
    assume "strict_prefix p q"
    then obtain zs where "q = p @ zs" "zs \<noteq> []"
      by (auto simp: strict_prefix_def prefix_def)
    then show "length p < length q \<and> take (length p) q = p" by simp
  next
    assume a: "length p < length q \<and> take (length p) q = p"
    then have "q = p @ drop (length p) q" by (metis append_take_drop_id)
    with a show "strict_prefix p q"
      by (metis less_irrefl prefixI strict_prefixI)
  qed
  then show ?thesis
    by (auto simp: isAncestor_def compare_zero_iff)
qed

lemma at_index_length_minus1:
  "at_index xs (int (length ys) - 1) = (if ys \<noteq> [] \<and> length ys \<le> length xs then Some (xs ! (length ys - 1)) else None)"
  by (cases ys) (auto simp: at_index_def nat_diff_distrib')

lemma js_less_iff: "js_less x y \<longleftrightarrow> (\<exists>a b. x = Some a \<and> y = Some b \<and> a < b)"
  by (cases x; cases y) auto

lemma endsBefore_iff:
  "endsBefore a b \<longleftrightarrow>
     a \<noteq> [] \<and> length a \<le> length b \<and> take (length a - 1) b = butlast a \<and> last a < b ! (length a - 1)"
proof (cases "a = []")
  case True
  then show ?thesis
    by (simp add: endsBefore_def at_index_def)
next
  case False
  then show ?thesis
    by (auto simp: endsBefore_def Let_def equals_iff slice0_length_minus1 at_index_length_minus1
        js_less_iff butlast_conv_take last_conv_nth)
qed

lemma levels_prefixes: "levels p = prefixes p"
proof (induction p rule: rev_induct)
  case Nil
  then show ?case by (simp add: levels_def slice0_nat)
next
  case (snoc x xs)
  have "levels (xs @ [x]) = levels xs @ [xs @ [x]]"
    by (simp add: levels_def slice0_nat)
  with snoc show ?case by simp
qed

lemma ancestors_prefixes: "ancestors p = butlast (prefixes p)"
  by (simp add: ancestors_def slice0_minus1 levels_prefixes)

lemma add_at_last: "add_at p (int (length p) - 1) d = p[length p - 1 := p ! (length p - 1) + d]"
  by (cases "p = []") (auto simp: add_at_def nat_diff_distrib')

lemma add_at_last_snoc: "p \<noteq> [] \<Longrightarrow> add_at p (int (length p) - 1) d = butlast p @ [last p + d]"
proof -
  assume "p \<noteq> []"
  then obtain xs x where "p = xs @ [x]" by (metis rev_exhaust)
  then show ?thesis by (simp add: add_at_def)
qed

lemma add_at_depth:
  "sp \<noteq> [] \<Longrightarrow> length sp \<le> length p \<Longrightarrow>
   add_at p (int (length sp) - 1) d = p[length sp - 1 := p ! (length sp - 1) + d]"
  by (cases sp) (auto simp: add_at_def)

lemma endsBefore_index_in_range: "endsBefore a b \<Longrightarrow> 0 \<le> int (length a) - 1 \<and> int (length a) - 1 < int (length b)"
  by (cases a) (auto simp: endsBefore_iff)

lemma endsBefore_irrefl: "\<not> endsBefore p p"
  by (auto simp: endsBefore_iff last_conv_nth)

lemma endsBefore_not_prefix: "endsBefore a b \<Longrightarrow> \<not> strict_prefix a b"
proof
  assume e: "endsBefore a b" and "strict_prefix a b"
  then obtain zs where "b = a @ zs" by (auto simp: strict_prefix_def prefix_def)
  with e show False by (auto simp: endsBefore_iff nth_append last_conv_nth)
qed

subsection \<open>Rebasing a path\<close>

text \<open>
  Claim C1. For every path \<open>p\<close> and every \<^verbatim>\<open>split_node\<close> operation at path
  \<open>sp\<close>, \<^verbatim>\<open>Path.transform\<close> returns \<open>p\<close> with its last component incremented
  when \<open>p = sp\<close> and the affinity is forward, \<open>p\<close> unchanged when \<open>p = sp\<close> and the
  affinity is backward, and null when \<open>p = sp\<close> and the affinity is neither; when
  \<open>sp\<close> ends before \<open>p\<close> (the first conjunct says what that is: \<open>sp\<close> is not the
  root, \<open>p\<close> is at least as deep, both agree above the last index of \<open>sp\<close>, and that
  index is less than the index of \<open>p\<close> at the same depth) it returns \<open>p\<close> with the
  component at depth \<open>length sp - 1\<close> incremented; every other \<open>p\<close> is returned
  unchanged. The affinity is the one the function works with, \<open>affinity_of opts\<close>:
  forward when the caller gives none. For the root path, which has no last component,
  \<open>p[length p - 1 := _]\<close> is the root path again.
\<close>

theorem transform_split_node:
  "(endsBefore sp p \<longleftrightarrow>
      sp \<noteq> [] \<and> length sp \<le> length p \<and> take (length sp - 1) p = butlast sp \<and>
      last sp < p ! (length sp - 1)) \<and>
   (p = sp \<and> affinity_of opts = Forward \<longrightarrow>
      transform (Some p) (Split_node sp pos) opts = Some (p[length p - 1 := p ! (length p - 1) + 1])) \<and>
   (p = sp \<and> affinity_of opts = Backward \<longrightarrow>
      transform (Some p) (Split_node sp pos) opts = Some p) \<and>
   (p = sp \<and> affinity_of opts \<noteq> Forward \<and> affinity_of opts \<noteq> Backward \<longrightarrow>
      transform (Some p) (Split_node sp pos) opts = None) \<and>
   (endsBefore sp p \<longrightarrow>
      transform (Some p) (Split_node sp pos) opts =
        Some (p[length sp - 1 := p ! (length sp - 1) + 1])) \<and>
   (p \<noteq> sp \<and> \<not> endsBefore sp p \<longrightarrow>
      transform (Some p) (Split_node sp pos) opts = Some p)"
proof -
  let ?t = "transform (Some p) (Split_node sp pos) opts"
  have c0: "endsBefore sp p \<longleftrightarrow>
      sp \<noteq> [] \<and> length sp \<le> length p \<and> take (length sp - 1) p = butlast sp \<and>
      last sp < p ! (length sp - 1)"
    by (rule endsBefore_iff)
  have c1: "p = sp \<and> affinity_of opts = Forward \<longrightarrow>
      ?t = Some (p[length p - 1 := p ! (length p - 1) + 1])"
    by (simp add: transform_def equals_iff add_at_last)
  have c2: "p = sp \<and> affinity_of opts = Backward \<longrightarrow> ?t = Some p"
    by (simp add: transform_def equals_iff)
  have c3: "p = sp \<and> affinity_of opts \<noteq> Forward \<and> affinity_of opts \<noteq> Backward \<longrightarrow> ?t = None"
    by (simp add: transform_def equals_iff)
  have c4: "endsBefore sp p \<longrightarrow> ?t = Some (p[length sp - 1 := p ! (length sp - 1) + 1])"
  proof
    assume e: "endsBefore sp p"
    then have "sp \<noteq> []" "length sp \<le> length p" by (simp_all add: endsBefore_iff)
    then have "add_at p (int (length sp) - 1) 1 = p[length sp - 1 := p ! (length sp - 1) + 1]"
      by (rule add_at_depth)
    moreover from e have "sp \<noteq> p" using endsBefore_irrefl by blast
    ultimately show "?t = Some (p[length sp - 1 := p ! (length sp - 1) + 1])"
      using e by (simp add: transform_def equals_iff)
  qed
  have c5: "p \<noteq> sp \<and> \<not> endsBefore sp p \<longrightarrow> ?t = Some p"
    by (auto simp: transform_def equals_iff)
  from c0 c1 c2 c3 c4 c5 show ?thesis by blast
qed

theorem transform_split_node_witness:
  "transform (Some [1, 2]) (Split_node [1, 2] 3) None = Some [1, 3] \<and>
   transform (Some [1, 2]) (Split_node [1, 2] 3) (Some \<lparr>affinity = Some Backward\<rparr>) = Some [1, 2] \<and>
   transform (Some [1, 2]) (Split_node [1, 2] 3) (Some \<lparr>affinity = Some Null_affinity\<rparr>) = None \<and>
   endsBefore [1, 2] [1, 5, 0] \<and>
   transform (Some [1, 5, 0]) (Split_node [1, 2] 3) None = Some [1, 6, 0] \<and>
   transform (Some [0]) (Split_node [1] 3) None = Some [0]"
  using transform_split_node [of "[1, 2]" "[1, 2]" None 3]
    transform_split_node [of "[1, 2]" "[1, 2]" "Some \<lparr>affinity = Some Backward\<rparr>" 3]
    transform_split_node [of "[1, 2]" "[1, 2]" "Some \<lparr>affinity = Some Null_affinity\<rparr>" 3]
    transform_split_node [of "[1, 2]" "[1, 5, 0]" None 3]
    transform_split_node [of "[1]" "[0]" None 3]
  by (simp add: affinity_of_def)

text \<open>
  Claim C2. For every path \<open>p\<close> and every \<^verbatim>\<open>remove_node\<close> operation at path
  \<open>rp\<close>, \<^verbatim>\<open>Path.transform\<close> returns null when \<open>p = rp\<close> or \<open>rp\<close> is a strict
  ancestor (a strict prefix) of \<open>p\<close>; it returns \<open>p\<close> with its last component
  decremented when \<open>rp\<close> ends before \<open>p\<close>; and it returns \<open>p\<close> unchanged otherwise.
  In particular the path \<open>[0, 0]\<close> becomes null under \<^verbatim>\<open>remove_node\<close> at \<open>[0]\<close>.
  The first conjunct again spells out the source's \<^verbatim>\<open>endsBefore\<close>; it also holds of a
  \<open>p\<close> deeper than \<open>rp\<close>, and there too it is the last component of \<open>p\<close> that the
  code decrements.
\<close>

theorem transform_remove_node:
  "(endsBefore rp p \<longleftrightarrow>
      rp \<noteq> [] \<and> length rp \<le> length p \<and> take (length rp - 1) p = butlast rp \<and>
      last rp < p ! (length rp - 1)) \<and>
   (p = rp \<or> strict_prefix rp p \<longrightarrow> transform (Some p) (Remove_node rp) opts = None) \<and>
   (endsBefore rp p \<longrightarrow>
      transform (Some p) (Remove_node rp) opts = Some (butlast p @ [last p - 1])) \<and>
   (p \<noteq> rp \<and> \<not> strict_prefix rp p \<and> \<not> endsBefore rp p \<longrightarrow>
      transform (Some p) (Remove_node rp) opts = Some p) \<and>
   transform (Some [0, 0]) (Remove_node [0]) None = None"
proof -
  let ?t = "transform (Some p) (Remove_node rp) opts"
  have c0: "endsBefore rp p \<longleftrightarrow>
      rp \<noteq> [] \<and> length rp \<le> length p \<and> take (length rp - 1) p = butlast rp \<and>
      last rp < p ! (length rp - 1)"
    by (rule endsBefore_iff)
  have c1: "p = rp \<or> strict_prefix rp p \<longrightarrow> ?t = None"
    by (auto simp: transform_def equals_iff isAncestor_iff)
  have c2: "endsBefore rp p \<longrightarrow> ?t = Some (butlast p @ [last p - 1])"
  proof
    assume e: "endsBefore rp p"
    then have "p \<noteq> []" by (auto simp: endsBefore_iff)
    then have "add_at p (int (length p) - 1) (- 1) = butlast p @ [last p - 1]"
      by (simp add: add_at_last_snoc)
    moreover from e have "rp \<noteq> p" using endsBefore_irrefl by blast
    moreover from e have "\<not> strict_prefix rp p" by (rule endsBefore_not_prefix)
    ultimately show "?t = Some (butlast p @ [last p - 1])"
      using e by (simp add: transform_def equals_iff isAncestor_iff)
  qed
  have c3: "p \<noteq> rp \<and> \<not> strict_prefix rp p \<and> \<not> endsBefore rp p \<longrightarrow> ?t = Some p"
    by (auto simp: transform_def equals_iff isAncestor_iff)
  have c4: "transform (Some [0, 0]) (Remove_node [0]) None = None"
    by (simp add: transform_def equals_iff isAncestor_iff)
  from c0 c1 c2 c3 c4 show ?thesis by blast
qed

theorem transform_remove_node_witness:
  "transform (Some [3, 1]) (Remove_node [3, 1]) None = None \<and>
   transform (Some [3, 1, 4]) (Remove_node [3, 1]) None = None \<and>
   endsBefore [3, 1] [3, 2] \<and>
   transform (Some [3, 2]) (Remove_node [3, 1]) None = Some [3, 1] \<and>
   transform (Some [3, 0]) (Remove_node [3, 1]) None = Some [3, 0]"
  using transform_remove_node [of "[3, 1]" "[3, 1]" None]
    transform_remove_node [of "[3, 1]" "[3, 1, 4]" None]
    transform_remove_node [of "[3, 1]" "[3, 2]" None]
    transform_remove_node [of "[3, 1]" "[3, 0]" None]
  by simp

text \<open>
  Claim C3. For every path \<open>p\<close> and every \<^verbatim>\<open>insert_node\<close> operation at path
  \<open>ip\<close>, \<^verbatim>\<open>Path.transform\<close> returns \<open>p\<close> with its last component incremented
  when \<open>p = ip\<close> or \<open>ip\<close> ends before \<open>p\<close>, and \<open>p\<close> unchanged otherwise. In
  particular a point at path \<open>[1]\<close> with offset \<open>1\<close> has path \<open>[2]\<close> and the same
  offset after \<^verbatim>\<open>insert_node\<close> at path \<open>[0]\<close>. For the root path, which has no last
  component, \<open>p[length p - 1 := _]\<close> is the root path again.
\<close>

theorem transform_insert_node:
  "(endsBefore ip p \<longleftrightarrow>
      ip \<noteq> [] \<and> length ip \<le> length p \<and> take (length ip - 1) p = butlast ip \<and>
      last ip < p ! (length ip - 1)) \<and>
   (p = ip \<or> endsBefore ip p \<longrightarrow>
      transform (Some p) (Insert_node ip n) opts = Some (p[length p - 1 := p ! (length p - 1) + 1])) \<and>
   (p \<noteq> ip \<and> \<not> endsBefore ip p \<longrightarrow>
      transform (Some p) (Insert_node ip n) opts = Some p) \<and>
   Point_transform (Some \<lparr>point_path = [1], point_offset = 1\<rparr>) (Insert_node [0] n) None =
     Some \<lparr>point_path = [2], point_offset = 1\<rparr>"
proof -
  let ?t = "transform (Some p) (Insert_node ip n) opts"
  have c0: "endsBefore ip p \<longleftrightarrow>
      ip \<noteq> [] \<and> length ip \<le> length p \<and> take (length ip - 1) p = butlast ip \<and>
      last ip < p ! (length ip - 1)"
    by (rule endsBefore_iff)
  have c1: "p = ip \<or> endsBefore ip p \<longrightarrow> ?t = Some (p[length p - 1 := p ! (length p - 1) + 1])"
    by (auto simp: transform_def equals_iff add_at_last)
  have c2: "p \<noteq> ip \<and> \<not> endsBefore ip p \<longrightarrow> ?t = Some p"
    by (auto simp: transform_def equals_iff)
  have "endsBefore [0] [1]" by (simp add: endsBefore_iff)
  then have "transform (Some [1]) (Insert_node [0] n) None = Some [2]"
    by (simp add: transform_def add_at_def)
  then have c3: "Point_transform (Some \<lparr>point_path = [1], point_offset = 1\<rparr>) (Insert_node [0] n) None =
     Some \<lparr>point_path = [2], point_offset = 1\<rparr>"
    by (simp add: Point_transform_def)
  from c0 c1 c2 c3 show ?thesis by blast
qed

theorem transform_insert_node_witness:
  "transform (Some [0, 4]) (Insert_node [0, 4] (Text ''x'' [])) None = Some [0, 5] \<and>
   endsBefore [0, 4] [0, 7] \<and>
   transform (Some [0, 7]) (Insert_node [0, 4] (Text ''x'' [])) None = Some [0, 8] \<and>
   transform (Some [0, 3]) (Insert_node [0, 4] (Text ''x'' [])) None = Some [0, 3]"
  using transform_insert_node [of "[0, 4]" "[0, 4]" "Text ''x'' []" None]
    transform_insert_node [of "[0, 4]" "[0, 7]" "Text ''x'' []" None]
    transform_insert_node [of "[0, 4]" "[0, 3]" "Text ''x'' []" None]
  by simp

text \<open>
  Claim C10. \<^verbatim>\<open>Path.previous\<close> throws only for the empty (root) path; for every
  non-empty path whose last component is \<open>0\<close> it returns a path whose last component
  is \<open>-1\<close>, a negative index, rather than failing.
\<close>

theorem previous_throws_only_for_root:
  "((\<exists>e. previous p = Inl e) \<longleftrightarrow> p = []) \<and>
   (p \<noteq> [] \<and> last p = 0 \<longrightarrow>
      (\<exists>q. previous p = Inr q \<and> q = butlast p @ [- 1] \<and> last q = - 1 \<and> last q < 0))"
  by (auto simp: previous_def slice0_minus1 last_conv_nth)

theorem previous_throws_only_for_root_witness:
  "previous [2, 0] = Inr [2, - 1] \<and> (\<exists>e. previous [] = Inl e)"
  using previous_throws_only_for_root [of "[2, 0]"] previous_throws_only_for_root [of "[]"]
  by simp

subsection \<open>Dirty paths\<close>

text \<open>
  The strict ancestors of a path are its strict prefixes, the root path among them, in
  the order of \<^verbatim>\<open>Path.levels\<close>: shortest first.
\<close>

lemma set_butlast_prefixes: "set (butlast (prefixes p)) = {q. strict_prefix q p}"
proof -
  obtain xs where xs: "prefixes p = xs @ [p]"
    by (metis append_butlast_last_id last_prefixes prefixes_not_Nil)
  have "distinct (xs @ [p])" using distinct_prefixes [of p] xs by simp
  then have "p \<notin> set xs" by simp
  moreover have "set (prefixes p) = insert p (set xs)" using xs by simp
  ultimately have "set xs = {q. prefix q p} - {p}"
    using set_prefixes_eq [of p] by auto
  moreover have "butlast (prefixes p) = xs" using xs by simp
  ultimately show ?thesis by (auto simp: strict_prefix_def)
qed

text \<open>
  Claim C6. \<^verbatim>\<open>getDirtyPaths\<close> returns exactly: for \<^verbatim>\<open>split_node\<close> at \<open>path\<close>,
  all levels of \<open>path\<close> (every prefix, \<open>path\<close> itself included) and then the next
  sibling of \<open>path\<close>; for \<^verbatim>\<open>insert_node\<close>, \<^verbatim>\<open>insert_text\<close>,
  \<^verbatim>\<open>remove_text\<close> and \<^verbatim>\<open>set_node\<close>, all levels of \<open>path\<close>; for
  \<^verbatim>\<open>merge_node\<close>, the previous sibling of \<open>path\<close> and then all strict ancestors of
  \<open>path\<close>; for \<^verbatim>\<open>remove_node\<close>, all strict ancestors of \<open>path\<close>; for every other
  operation, the empty list. The root path has no sibling: there \<^verbatim>\<open>split_node\<close> and
  \<^verbatim>\<open>merge_node\<close> make \<^verbatim>\<open>getDirtyPaths\<close> throw.
\<close>

theorem getDirtyPaths_exact:
  "(path \<noteq> [] \<longrightarrow>
      getDirtyPaths (Split_node path pos) = Inr (prefixes path @ [butlast path @ [last path + 1]])) \<and>
   (\<exists>e. getDirtyPaths (Split_node [] pos) = Inl e) \<and>
   getDirtyPaths (Insert_node path n) = Inr (prefixes path) \<and>
   getDirtyPaths (Insert_text path off txt) = Inr (prefixes path) \<and>
   getDirtyPaths (Remove_text path off txt) = Inr (prefixes path) \<and>
   getDirtyPaths (Set_node path ps) = Inr (prefixes path) \<and>
   (path \<noteq> [] \<longrightarrow>
      getDirtyPaths (Merge_node path pos) =
        Inr ((butlast path @ [last path - 1]) # butlast (prefixes path))) \<and>
   (\<exists>e. getDirtyPaths (Merge_node [] pos) = Inl e) \<and>
   getDirtyPaths (Remove_node path) = Inr (butlast (prefixes path)) \<and>
   getDirtyPaths (Set_selection sel) = Inr [] \<and>
   set (butlast (prefixes path)) = {q. strict_prefix q path}"
proof -
  have n: "path \<noteq> [] \<Longrightarrow> next path = Inr (butlast path @ [last path + 1])"
    by (simp add: next_def slice0_minus1 last_conv_nth)
  have p: "path \<noteq> [] \<Longrightarrow> previous path = Inr (butlast path @ [last path - 1])"
    by (simp add: previous_def slice0_minus1 last_conv_nth)
  have c1: "path \<noteq> [] \<longrightarrow>
      getDirtyPaths (Split_node path pos) = Inr (prefixes path @ [butlast path @ [last path + 1]])"
    by (simp add: getDirtyPaths_def levels_prefixes n)
  have c2: "\<exists>e. getDirtyPaths (Split_node [] pos) = Inl e"
    by (simp add: getDirtyPaths_def next_def)
  have c3: "path \<noteq> [] \<longrightarrow>
      getDirtyPaths (Merge_node path pos) =
        Inr ((butlast path @ [last path - 1]) # butlast (prefixes path))"
    by (simp add: getDirtyPaths_def ancestors_prefixes p)
  have c4: "\<exists>e. getDirtyPaths (Merge_node [] pos) = Inl e"
    by (simp add: getDirtyPaths_def previous_def)
  have c5: "getDirtyPaths (Insert_node path n) = Inr (prefixes path)"
    "getDirtyPaths (Insert_text path off txt) = Inr (prefixes path)"
    "getDirtyPaths (Remove_text path off txt) = Inr (prefixes path)"
    "getDirtyPaths (Set_node path ps) = Inr (prefixes path)"
    "getDirtyPaths (Remove_node path) = Inr (butlast (prefixes path))"
    "getDirtyPaths (Set_selection sel) = Inr []"
    by (simp_all add: getDirtyPaths_def levels_prefixes ancestors_prefixes)
  from c1 c2 c3 c4 c5 set_butlast_prefixes show ?thesis by blast
qed

theorem getDirtyPaths_exact_witness:
  "getDirtyPaths (Split_node [1, 2] 3) = Inr [[], [1], [1, 2], [1, 3]] \<and>
   getDirtyPaths (Merge_node [1, 2] 3) = Inr [[1, 1], [], [1]]"
  using getDirtyPaths_exact [of "[1, 2]" 3] by simp

section \<open>Properties of the editor\<close>

subsection \<open>The tree, \<^verbatim>\<open>apply\<close>, batches and references\<close>

lemma isCollapsed_iff: "isCollapsed r \<longleftrightarrow> anchor r = focus r"
  by (cases "anchor r"; cases "focus r") (auto simp: isCollapsed_def equals_iff)

text \<open>Paths into the tree, and rewriting the children of the node at a path.\<close>

lemma get_node_append:
  "get_node n (p @ q) = (case get_node n p of None \<Rightarrow> None | Some m \<Rightarrow> get_node m q)"
proof (induction n p rule: get_node.induct)
  case (1 n)
  then show ?case by simp
next
  case (2 s ps i p)
  then show ?case by simp
next
  case (3 ps cs i p)
  then show ?case by (simp split: option.splits)
qed

lemma get_node_snoc:
  "get_node n (p @ [i]) =
     (case get_node n p of
        Some (Element ps kids) \<Rightarrow> at_index kids i
      | _ \<Rightarrow> None)"
  by (simp add: get_node_append split: option.splits node.splits)

lemma at_index_update:
  "at_index cs i = Some c \<Longrightarrow> at_index (cs[nat i := c']) i = Some c'"
  by (auto simp: at_index_def split: if_splits)

lemma modify_children_get_node:
  "get_node (Element rp cs) pp = Some (Element ps kids) \<Longrightarrow> f kids = Inr kids' \<Longrightarrow>
   \<exists>cs'. modify_children pp f cs = Inr cs' \<and>
         get_node (Element rp cs') pp = Some (Element ps kids')"
proof (induction pp arbitrary: rp cs)
  case Nil
  then show ?case by simp
next
  case (Cons i pp)
  from Cons.prems(1) obtain c where c: "at_index cs i = Some c" and g: "get_node c pp = Some (Element ps kids)"
    by (auto split: option.splits)
  show ?case
  proof (cases c)
    case (Text s tp)
    with g show ?thesis by (cases pp) simp_all
  next
    case (Element cp ckids)
    with g Cons.IH [of cp ckids] Cons.prems(2)
    obtain ckids' where m: "modify_children pp f ckids = Inr ckids'"
      and g': "get_node (Element cp ckids') pp = Some (Element ps kids')"
      by blast
    from c Element m g' show ?thesis
      by (simp add: at_index_update)
  qed
qed

lemma parent_nonempty: "path \<noteq> [] \<Longrightarrow> parent path = Inr (butlast path)"
  by (simp add: parent_def slice0_minus1)

lemma next_nonempty: "path \<noteq> [] \<Longrightarrow> next path = Inr (butlast path @ [last path + 1])"
  by (simp add: next_def slice0_minus1 last_conv_nth)

lemma at_parent_snoc: "at_parent (pp @ [i]) f cs = modify_children pp (f i) cs"
  by (simp add: at_parent_def parent_nonempty)

lemma at_parent_get_node:
  "get_node (Element rp cs) pp = Some (Element ps kids) \<Longrightarrow> f i kids = Inr kids' \<Longrightarrow>
   \<exists>cs'. at_parent (pp @ [i]) f cs = Inr cs' \<and>
         get_node (Element rp cs') pp = Some (Element ps kids')"
  unfolding at_parent_snoc by (rule modify_children_get_node)

text \<open>What a successful \<^verbatim>\<open>apply\<close> leaves behind.\<close>

lemma apply_Set_selection:
  "apply e (Set_selection sel) =
     Inr (e\<lparr>path_refs := map (\<lambda>(i, r). (i, PathRef_transform r (Set_selection sel))) (path_refs e),
            operations := operations e @ [Set_selection sel],
            dirty_paths := fold (\<lambda>oldPath. add (transform (Some oldPath) (Set_selection sel) None)) (dirty_paths e) [],
            selection := sel, marks := None,
            microtasks := microtasks e @ [NotifyAndReset]\<rparr>)"
  by (simp add: apply_def getDirtyPaths_def Transforms_transform_def Let_def)

lemma apply_fields:
  assumes "apply e op = Inr e'"
  shows "operations e' = operations e @ [op]"
    and "batch_depth e' = batch_depth e"
    and "microtasks e' = microtasks e @ [NotifyAndReset]"
    and "onChange_calls e' = onChange_calls e"
    and "path_refs e' = map (\<lambda>(i, r). (i, PathRef_transform r op)) (path_refs e)"
  using assms
  by (cases op; auto simp: apply_def Let_def Transforms_transform_def split: sum.splits)+

lemma apply_children:
  "apply e op = Inr e' \<Longrightarrow> transform_children (children e) op = Inr (children e')"
  by (cases op) (auto simp: apply_def Let_def Transforms_transform_def transform_children_def split: sum.splits)

lemma apply_succeeds:
  assumes "getDirtyPaths op = Inr nd" "transform_children (children e) op = Inr cs"
  shows "\<exists>e'. apply e op = Inr e' \<and> children e' = cs"
  using assms by (cases op) (auto simp: apply_def Let_def Transforms_transform_def transform_children_def)

lemma set_fold_add:
  "set (fold (\<lambda>path. add (Some path)) xs acc) = set acc \<union> set xs"
  by (induction xs arbitrary: acc) (auto simp: add_def)

lemma apply_dirty_paths:
  assumes "apply e op = Inr e'" and "getDirtyPaths op = Inr nd"
  shows "set nd \<subseteq> set (dirty_paths e')"
proof -
  from assms have "dirty_paths e' = fold (\<lambda>path. add (Some path)) nd
            (fold (\<lambda>oldPath. add (transform (Some oldPath) op None)) (dirty_paths e) [])"
    by (cases op; auto simp: apply_def Let_def Transforms_transform_def split: sum.splits)
  then show ?thesis by (simp add: set_fold_add)
qed

lemma apply_at_parent:
  assumes g: "get_node (root e) pp = Some (Element ps kids)"
    and f: "f i kids = Inr kids'"
    and tc: "\<And>cs. transform_children cs op = at_parent (pp @ [i]) f cs"
    and d: "getDirtyPaths op = Inr nd"
  shows "\<exists>e'. apply e op = Inr e' \<and>
           get_node (root e') pp = Some (Element ps kids') \<and>
           operations e' = operations e @ [op] \<and>
           batch_depth e' = batch_depth e \<and>
           path_refs e' = map (\<lambda>(i, r). (i, PathRef_transform r op)) (path_refs e)"
proof -
  from g have "get_node (Element [] (children e)) pp = Some (Element ps kids)"
    by (simp add: root_def)
  from at_parent_get_node [where f = f and i = i, OF this f]
  obtain cs' where a: "at_parent (pp @ [i]) f (children e) = Inr cs'"
    and g': "get_node (Element [] cs') pp = Some (Element ps kids')"
    by blast
  from a tc have "transform_children (children e) op = Inr cs'" by simp
  from apply_succeeds [OF d this] obtain e' where e': "apply e op = Inr e'" and c: "children e' = cs'"
    by blast
  from g' c have "get_node (root e') pp = Some (Element ps kids')" by (simp add: root_def)
  with e' apply_fields [OF e'] show ?thesis by simp
qed

lemma apply_insert_succeeds:
  assumes "get_node (root e) pp = Some (Element ps kids)" and "0 \<le> i" and "i \<le> int (length kids)"
  shows "\<exists>e'. apply e (Insert_node (pp @ [i]) n) = Inr e' \<and>
           get_node (root e') pp = Some (Element ps (take (nat i) kids @ [n] @ drop (nat i) kids)) \<and>
           operations e' = operations e @ [Insert_node (pp @ [i]) n] \<and>
           batch_depth e' = batch_depth e"
proof -
  have f: "insert_child n i kids = Inr (take (nat i) kids @ [n] @ drop (nat i) kids)"
    using assms(2,3) by (simp add: insert_child_def)
  have tc: "\<And>cs. transform_children cs (Insert_node (pp @ [i]) n) = at_parent (pp @ [i]) (insert_child n) cs"
    by (simp add: transform_children_def)
  have d: "getDirtyPaths (Insert_node (pp @ [i]) n) = Inr (levels (pp @ [i]))"
    by (simp add: getDirtyPaths_def)
  from apply_at_parent [where f = "insert_child n", OF assms(1) f tc d] show ?thesis by blast
qed

lemma apply_split_text:
  assumes "get_node (root e) pp = Some (Element ps kids)" and "at_index kids i = Some (Text s tp)"
  shows "\<exists>e' kids'. apply e (Split_node (pp @ [i]) off) = Inr e' \<and>
           get_node (root e') pp = Some (Element ps kids') \<and>
           length kids' = Suc (length kids) \<and>
           operations e' = operations e @ [Split_node (pp @ [i]) off] \<and>
           batch_depth e' = batch_depth e \<and>
           path_refs e' = map (\<lambda>(j, r). (j, PathRef_transform r (Split_node (pp @ [i]) off))) (path_refs e)"
proof -
  let ?kids' = "take (nat i) kids @ [Text (take off s) tp, Text (drop off s) tp] @ drop (Suc (nat i)) kids"
  have f: "split_child off i kids = Inr ?kids'"
    using assms(2) by (simp add: split_child_def)
  from assms(2) have "nat i < length kids" by (auto simp: at_index_def split: if_splits)
  then have l: "length ?kids' = Suc (length kids)" by simp
  have tc: "\<And>cs. transform_children cs (Split_node (pp @ [i]) off) = at_parent (pp @ [i]) (split_child off) cs"
    by (simp add: transform_children_def)
  have d: "getDirtyPaths (Split_node (pp @ [i]) off) = Inr (levels (pp @ [i]) @ [pp @ [i + 1]])"
    by (simp add: getDirtyPaths_def next_nonempty)
  from apply_at_parent [where f = "split_child off", OF assms(1) f tc d] l show ?thesis by blast
qed

lemma apply_remove_only_child:
  assumes "get_node (root e) pp = Some (Element ps [c])"
  shows "\<exists>e'. apply e (Remove_node (pp @ [0])) = Inr e' \<and>
           get_node (root e') pp = Some (Element ps []) \<and>
           pp \<in> set (dirty_paths e')"
proof -
  have f: "remove_child 0 [c] = Inr []" by (simp add: remove_child_def)
  have tc: "\<And>cs. transform_children cs (Remove_node (pp @ [0])) = at_parent (pp @ [0]) remove_child cs"
    by (simp add: transform_children_def)
  have d: "getDirtyPaths (Remove_node (pp @ [0])) = Inr (prefixes pp)"
    by (simp add: getDirtyPaths_def ancestors_prefixes)
  from apply_at_parent [where f = remove_child, OF assms f tc d] obtain e' where
    a: "apply e (Remove_node (pp @ [0])) = Inr e'"
    and g: "get_node (root e') pp = Some (Element ps [])"
    by blast
  from apply_dirty_paths [OF a d] have "pp \<in> set (dirty_paths e')" by auto
  with a g show ?thesis by blast
qed

lemma transform_split_own_forward:
  "p \<noteq> [] \<Longrightarrow>
   transform (Some p) (Split_node p off) (Some \<lparr>affinity = Some Forward\<rparr>) =
     Some (butlast p @ [last p + 1])"
  by (simp add: transform_def equals_iff affinity_of_def add_at_last_snoc)

text \<open>Batch scopes; the edge test reads the tree only.\<close>

lemma root_batch_depth [simp]: "root (e\<lparr>batch_depth := d\<rparr>) = root e"
  by (simp add: root_def)

lemma isEdge_batch_depth [simp]: "isEdge (e\<lparr>batch_depth := d\<rparr>) pt p = isEdge e pt p"
  by (simp add: isEdge_def)

lemma withoutNormalizing_Inr:
  "withoutNormalizing nrm e Inr = (if batch_depth e = 0 then nrm e else Inr e)"
  by (simp add: withoutNormalizing_def)

lemma Editor_normalize_clean: "dirty_paths e = [] \<Longrightarrow> Editor_normalize dr e = Inr e"
  by (simp add: Editor_normalize_def withoutNormalizing_def)

lemma withoutNormalizing_nested:
  assumes "0 < batch_depth e"
    and "fn (e\<lparr>batch_depth := batch_depth e + 1\<rparr>) = Inr e'"
    and "batch_depth e' = batch_depth e + 1"
  shows "withoutNormalizing nrm e fn = Inr (e'\<lparr>batch_depth := batch_depth e\<rparr>)"
  using assms by (simp add: withoutNormalizing_def)

lemma isEdge_Inr_text:
  "isEdge e pt p = Inr b \<Longrightarrow> \<exists>s ps. get_node (root e) p = Some (Text s ps)"
  by (auto simp: isEdge_def split: option.splits node.splits)

lemma get_node_root_text_snoc:
  assumes "get_node (root e) p = Some (Text s tp)"
  shows "p \<noteq> [] \<and> (\<exists>ps kids. get_node (root e) (butlast p) = Some (Element ps kids) \<and>
           at_index kids (last p) = Some (Text s tp))"
proof -
  from assms have ne: "p \<noteq> []" by (auto simp: root_def)
  then have "p = butlast p @ [last p]" by simp
  then have "get_node (root e) (butlast p @ [last p]) = Some (Text s tp)"
    using assms by simp
  then have "\<exists>ps kids. get_node (root e) (butlast p) = Some (Element ps kids) \<and>
           at_index kids (last p) = Some (Text s tp)"
    unfolding get_node_snoc by (auto split: option.splits node.splits)
  with ne show ?thesis by blast
qed

lemma apply_split_succeeds:
  assumes "get_node (root e) p = Some (Text s tp)"
  shows "\<exists>e'. apply e (Split_node p off) = Inr e' \<and>
           operations e' = operations e @ [Split_node p off] \<and>
           batch_depth e' = batch_depth e"
proof -
  from get_node_root_text_snoc [OF assms] obtain ps kids where
    ne: "p \<noteq> []" and g: "get_node (Element [] (children e)) (butlast p) = Some (Element ps kids)"
    and a: "at_index kids (last p) = Some (Text s tp)"
    by (auto simp: root_def)
  from a have "\<exists>kids'. split_child off (last p) kids = Inr kids'"
    by (simp add: split_child_def)
  then obtain kids' where "split_child off (last p) kids = Inr kids'" ..
  from at_parent_get_node [where f = "split_child off" and i = "last p", OF g this] ne
  obtain cs' where "at_parent p (split_child off) (children e) = Inr cs'"
    by auto
  then have t: "transform_children (children e) (Split_node p off) = Inr cs'"
    by (simp add: transform_children_def)
  from ne have "\<exists>nd. getDirtyPaths (Split_node p off) = Inr nd"
    by (simp add: getDirtyPaths_def next_nonempty)
  then obtain nd where "getDirtyPaths (Split_node p off) = Inr nd" ..
  from apply_succeeds [OF this t] obtain e' where e': "apply e (Split_node p off) = Inr e'"
    by blast
  with apply_fields [OF e'] show ?thesis by simp
qed

text \<open>A reference taken and released again: its number is fresh, so releasing it finds it.\<close>

lemma fold_max_ge: "a \<le> fold max xs (a::nat)"
  by (induction xs arbitrary: a) (auto intro: order_trans [OF max.cobounded2])

lemma fold_max_upper: "x \<in> set xs \<Longrightarrow> x \<le> fold max xs (a::nat)"
proof (induction xs arbitrary: a)
  case Nil
  then show ?case by simp
next
  case (Cons y ys)
  show ?case
  proof (cases "x = y")
    case True
    have "max y a \<le> fold max ys (max y a)" by (rule fold_max_ge)
    with True show ?thesis by simp
  next
    case False
    with Cons show ?thesis by simp
  qed
qed

lemma fresh_ref: "(j, r) \<in> set refs \<Longrightarrow> j \<noteq> Suc (fold max (map fst refs) 0)"
proof
  assume a: "(j, r) \<in> set refs" and b: "j = Suc (fold max (map fst refs) 0)"
  from a have "j \<in> set (map fst refs)" by force
  then have "j \<le> fold max (map fst refs) 0" by (rule fold_max_upper)
  with b show False by simp
qed

lemma filter_fresh:
  "filter (\<lambda>(j, r). j \<noteq> Suc (fold max (map fst refs) 0)) (map (\<lambda>(i, r). (i, g r)) refs) =
     map (\<lambda>(i, r). (i, g r)) refs"
  by (rule filter_True) (auto dest: fresh_ref)

lemma map_of_fresh:
  "map_of (map (\<lambda>(i, r). (i, g r)) refs) (Suc (fold max (map fst refs) 0)) = None"
proof -
  have "Suc (fold max (map fst refs) 0) \<notin> fst ` set (map (\<lambda>(i, r). (i, g r)) refs)"
    by (auto dest: fresh_ref)
  then show ?thesis by (simp add: map_of_eq_None_iff)
qed

lemma unref_pathRef_transformed:
  assumes "pathRef e p = (e1, i)"
    and "path_refs e2 = map (\<lambda>(i, r). (i, g r)) (path_refs e1)"
  shows "unref e2 i =
    (e2\<lparr>path_refs := map (\<lambda>(i, r). (i, g r)) (path_refs e)\<rparr>,
     current (g \<lparr>current = Some p, ref_affinity = Forward\<rparr>))"
proof -
  let ?i = "Suc (fold max (map fst (path_refs e)) 0)"
  from assms(1) have i: "i = ?i"
    and r: "path_refs e1 = path_refs e @ [(?i, \<lparr>current = Some p, ref_affinity = Forward\<rparr>)]"
    by (auto simp: pathRef_def Let_def)
  have "filter (\<lambda>(j, r). j \<noteq> ?i) (path_refs e2) = map (\<lambda>(i, r). (i, g r)) (path_refs e)"
    using assms(2) r by (simp add: filter_fresh)
  moreover have "map_of (path_refs e2) ?i = Some (g \<lparr>current = Some p, ref_affinity = Forward\<rparr>)"
    using assms(2) r by (simp add: map_of_fresh map_add_def)
  ultimately show ?thesis using i by (simp add: unref_def)
qed

lemma map_id_refs: "map (\<lambda>(i, r). (i, r)) refs = refs"
  by (induction refs) auto

lemma pathRef_fields:
  assumes "pathRef e p = (e1, i)"
  shows "children e1 = children e" "operations e1 = operations e" "batch_depth e1 = batch_depth e"
    "dirty_paths e1 = dirty_paths e" "root e1 = root e"
    "e1\<lparr>path_refs := path_refs e\<rparr> = e"
  using assms by (auto simp: pathRef_def Let_def root_def)

subsection \<open>Marks\<close>

text \<open>
  Claim C9. With a collapsed selection, \<^verbatim>\<open>addMark(key, value)\<close> replaces
  \<^verbatim>\<open>editor.marks\<close> wholesale by the map with the single entry \<open>key \<mapsto> value\<close>
  (a mark pending from an earlier call is discarded, not merged), applies no operation
  (tree and operation log stay as they are) and calls \<^verbatim>\<open>onChange\<close> at once: the
  count of calls goes up by one and no job is queued.
\<close>

theorem addMark_collapsed:
  "selection e = Some sel \<and> isCollapsed sel \<longrightarrow>
     (\<exists>e'. addMark setNode e key val = Inr e' \<and>
        e' = e\<lparr>marks := Some [(key, val)], onChange_calls := onChange_calls e + 1\<rparr> \<and>
        marks e' = Some [(key, val)] \<and>
        children e' = children e \<and> operations e' = operations e \<and>
        microtasks e' = microtasks e \<and>
        onChange_calls e' = onChange_calls e + 1)"
  by (simp add: addMark_def)

theorem addMark_collapsed_witness:
  "addMark (\<lambda>e ps. Inr e)
     (createEditor\<lparr>children := [Text ''ab'' []],
        selection := Some \<lparr>anchor = \<lparr>point_path = [0], point_offset = 1\<rparr>,
                            focus = \<lparr>point_path = [0], point_offset = 1\<rparr>\<rparr>,
        marks := Some [(''bold'', JBool True)]\<rparr>)
     ''italic'' (JBool True) =
   Inr (createEditor\<lparr>children := [Text ''ab'' []],
        selection := Some \<lparr>anchor = \<lparr>point_path = [0], point_offset = 1\<rparr>,
                            focus = \<lparr>point_path = [0], point_offset = 1\<rparr>\<rparr>,
        marks := Some [(''italic'', JBool True)], onChange_calls := 1\<rparr>)"
  using addMark_collapsed [of
     "createEditor\<lparr>children := [Text ''ab'' []],
        selection := Some \<lparr>anchor = \<lparr>point_path = [0], point_offset = 1\<rparr>,
                            focus = \<lparr>point_path = [0], point_offset = 1\<rparr>\<rparr>,
        marks := Some [(''bold'', JBool True)]\<rparr>"
     "\<lparr>anchor = \<lparr>point_path = [0], point_offset = 1\<rparr>,
       focus = \<lparr>point_path = [0], point_offset = 1\<rparr>\<rparr>"
     "\<lambda>e ps. Inr e" "''italic''" "JBool True"]
  by (simp add: createEditor_def isCollapsed_iff)

subsection \<open>Change notifications\<close>

text \<open>
  Claim C4 says that two or more \<^verbatim>\<open>apply\<close> calls within one synchronous turn
  produce exactly one change notification and one reset of the operation log. The code
  queues one job for every call: after two calls on a fresh editor two jobs are queued,
  and at the end of the turn \<^verbatim>\<open>onChange\<close> has run twice (each job also resets the log).
\<close>

theorem apply_twice_two_notifications:
  "(case apply createEditor (Insert_node [0] (Text ''a'' [])) of
      Inl x \<Rightarrow> False
    | Inr e1 \<Rightarrow>
        (case apply e1 (Insert_node [1] (Text ''b'' [(''bold'', JBool True)])) of
           Inl x \<Rightarrow> False
         | Inr e2 \<Rightarrow>
             children e2 = [Text ''a'' [], Text ''b'' [(''bold'', JBool True)]] \<and>
             microtasks e2 = [NotifyAndReset, NotifyAndReset] \<and>
             onChange_calls e2 = 0 \<and>
             onChange_calls (end_of_turn e2) = 2 \<and>
             operations (end_of_turn e2) = []))"
  by code_simp

subsection \<open>\<^verbatim>\<open>splitNodes\<close>\<close>

text \<open>
  Claim C8 says that \<^verbatim>\<open>splitNodes(editor, {at})\<close> is a silent no-op, which leaves
  the tree and the operation log unchanged, whenever the point is at the start or end
  edge of its leaf, and that otherwise it applies exactly one \<^verbatim>\<open>split_node\<close>. The
  call is a batch scope, and the normalization pass runs when the outermost scope
  closes. At top level, on the single leaf \<open>''ab''\<close>, the call at offset 1 leaves two
  operations in the log, the split and the merge by which the pass joins the two halves
  again (their properties are equal), and the leaf is whole as before. After
  \<^verbatim>\<open>editor.apply\<close> of an \<^verbatim>\<open>insert_node\<close> at \<open>[1]\<close>, which leaves dirty paths
  pending, the call at offset 0 of the first leaf, an edge, joins the two leaves and logs
  the merge.
\<close>

theorem splitNodes_edge_noop_counterexample:
  "(let dr = (\<lambda>e r. Inl (Error ''Transforms.delete''));
        nrm = Editor_normalize dr;
        e = createEditor\<lparr>children := [Text ''ab'' []]\<rparr>;
        e1 = \<lparr>children = [Text ''ab'' [], Text ''cd'' []], selection = None,
               operations = [Insert_node [1] (Text ''cd'' [])], marks = None,
               dirty_paths = [[], [1]], path_refs = [], batch_depth = 0,
               microtasks = [NotifyAndReset], onChange_calls = 0\<rparr>
    in isEdge e \<lparr>point_path = [0], point_offset = 1\<rparr> [0] = Inr False \<and>
       splitNodes nrm e \<lparr>point_path = [0], point_offset = 1\<rparr> =
         Inr \<lparr>children = [Text ''ab'' []], selection = None,
              operations = [Split_node [0] 1, Merge_node [1] 1], marks = None,
              dirty_paths = [], path_refs = [], batch_depth = 0,
              microtasks = [NotifyAndReset, NotifyAndReset], onChange_calls = 0\<rparr> \<and>
       apply e (Insert_node [1] (Text ''cd'' [])) = Inr e1 \<and>
       isEdge e1 \<lparr>point_path = [0], point_offset = 0\<rparr> [0] = Inr True \<and>
       splitNodes nrm e1 \<lparr>point_path = [0], point_offset = 0\<rparr> =
         Inr \<lparr>children = [Text ''abcd'' []], selection = None,
              operations = [Insert_node [1] (Text ''cd'' []), Merge_node [1] 2],
              marks = None, dirty_paths = [], path_refs = [], batch_depth = 0,
              microtasks = [NotifyAndReset, NotifyAndReset], onChange_calls = 0\<rparr>)"
  by code_simp

text \<open>
  Claim C8, amended. Whenever the point is at the start or end edge of its leaf (offset
  0, or the length of the text of the leaf, which is what the edge test answers),
  \<^verbatim>\<open>splitNodes(editor, {at})\<close> applies no operation itself: inside an enclosing
  batch scope the call is a silent no-op, the editor comes back as it was, tree and
  operation log included, and so it does at top level when no dirty path is pending; at
  top level the call is the normalization pass of the closing scope and nothing else.
  Otherwise it applies exactly one \<^verbatim>\<open>split_node\<close> operation at \<open>at.path\<close> with
  position \<open>at.offset\<close>, which succeeds and is added to the log: inside an enclosing
  batch scope the call is this one \<^verbatim>\<open>apply\<close> and nothing else, at top level the
  normalization pass of the closing scope follows it.
\<close>

theorem splitNodes_edge_noop:
  "get_node (root e) (point_path at) = Some (Text s ps) \<longrightarrow>
     isEdge e at (point_path at) =
       Inr (point_offset at = 0 \<or> point_offset at = length s) \<and>
     (point_offset at = 0 \<or> point_offset at = length s \<longrightarrow>
        splitNodes nrm e at = (if batch_depth e = 0 then nrm e else Inr e) \<and>
        (dirty_paths e = [] \<longrightarrow> splitNodes (Editor_normalize dr) e at = Inr e)) \<and>
     (\<not> (point_offset at = 0 \<or> point_offset at = length s) \<longrightarrow>
        (\<exists>e1. apply (e\<lparr>batch_depth := batch_depth e + 1\<rparr>)
                 (Split_node (point_path at) (point_offset at)) = Inr e1 \<and>
              operations e1 =
                operations e @ [Split_node (point_path at) (point_offset at)] \<and>
              splitNodes nrm e at =
                (if batch_depth e = 0 then nrm (e1\<lparr>batch_depth := 0\<rparr>)
                 else Inr (e1\<lparr>batch_depth := batch_depth e\<rparr>))))"
proof
  assume g: "get_node (root e) (point_path at) = Some (Text s ps)"
  let ?op = "Split_node (point_path at) (point_offset at)"
  let ?b = "point_offset at = 0 \<or> point_offset at = length s"
  let ?ein = "e\<lparr>batch_depth := batch_depth e + 1\<rparr>"
  have edge: "isEdge e at (point_path at) = Inr ?b"
    using g by (simp add: isEdge_def equals_iff)
  have edge1: "splitNodes nrm e at = (if batch_depth e = 0 then nrm e else Inr e)"
    if "?b" for nrm
  proof -
    from that edge have "splitNodes nrm e at = withoutNormalizing nrm e Inr"
      by (simp add: splitNodes_def withoutNormalizing_def)
    then show ?thesis by (simp add: withoutNormalizing_Inr)
  qed
  have edge2: "splitNodes (Editor_normalize dr) e at = Inr e"
    if "?b" "dirty_paths e = []"
    using edge1 [OF that(1), of "Editor_normalize dr"] that(2)
    by (simp add: Editor_normalize_clean)
  have split: "\<exists>e1. apply ?ein ?op = Inr e1 \<and>
              operations e1 = operations e @ [?op] \<and>
              splitNodes nrm e at =
                (if batch_depth e = 0 then nrm (e1\<lparr>batch_depth := 0\<rparr>)
                 else Inr (e1\<lparr>batch_depth := batch_depth e\<rparr>))"
    if "\<not> ?b"
  proof -
    from g have "get_node (root ?ein) (point_path at) = Some (Text s ps)" by simp
    from apply_split_succeeds [OF this] obtain e1 where
      a: "apply ?ein ?op = Inr e1" and o: "operations e1 = operations e @ [?op]"
      and b: "batch_depth e1 = batch_depth e + 1"
      by auto
    from that edge have "splitNodes nrm e at = withoutNormalizing nrm e (\<lambda>e. apply e ?op)"
      by (simp add: splitNodes_def withoutNormalizing_def)
    with a b have "splitNodes nrm e at =
                (if batch_depth e = 0 then nrm (e1\<lparr>batch_depth := 0\<rparr>)
                 else Inr (e1\<lparr>batch_depth := batch_depth e\<rparr>))"
      by (cases "batch_depth e = 0") (simp_all add: withoutNormalizing_def)
    with a o show ?thesis by blast
  qed
  from edge edge1 edge2 split
  show "isEdge e at (point_path at) = Inr ?b \<and>
     (?b \<longrightarrow>
        splitNodes nrm e at = (if batch_depth e = 0 then nrm e else Inr e) \<and>
        (dirty_paths e = [] \<longrightarrow> splitNodes (Editor_normalize dr) e at = Inr e)) \<and>
     (\<not> ?b \<longrightarrow>
        (\<exists>e1. apply ?ein ?op = Inr e1 \<and>
              operations e1 = operations e @ [?op] \<and>
              splitNodes nrm e at =
                (if batch_depth e = 0 then nrm (e1\<lparr>batch_depth := 0\<rparr>)
                 else Inr (e1\<lparr>batch_depth := batch_depth e\<rparr>))))"
    by blast
qed

theorem splitNodes_edge_noop_witness:
  "(let dr = (\<lambda>e r. Inl (Error ''Transforms.delete''));
        nrm = Editor_normalize dr;
        e = createEditor\<lparr>children := [Text ''ab'' []]\<rparr>;
        e1 = e\<lparr>batch_depth := 1\<rparr>;
        at_end = \<lparr>point_path = [0], point_offset = 2\<rparr>;
        inside = \<lparr>point_path = [0], point_offset = 1\<rparr>
    in get_node (root e) [0] = Some (Text ''ab'' []) \<and>
       get_node (root e1) [0] = Some (Text ''ab'' []) \<and>
       splitNodes nrm e at_end = Inr e \<and>
       splitNodes nrm e1 at_end = Inr e1 \<and>
       (\<exists>e2. apply (e1\<lparr>batch_depth := 2\<rparr>) (Split_node [0] 1) = Inr e2 \<and>
             operations e2 = [Split_node [0] 1] \<and>
             splitNodes nrm e1 inside = Inr (e2\<lparr>batch_depth := 1\<rparr>)))"
proof -
  let ?dr = "\<lambda>(e::editor) (r::range). (Inl (Error ''Transforms.delete'') :: error + editor \<times> point option)"
  let ?nrm = "Editor_normalize ?dr"
  let ?e = "createEditor\<lparr>children := [Text ''ab'' []]\<rparr>"
  let ?e1 = "?e\<lparr>batch_depth := 1\<rparr>"
  let ?at_end = "\<lparr>point_path = [0], point_offset = 2\<rparr>"
  let ?inside = "\<lparr>point_path = [0], point_offset = 1\<rparr>"
  have g: "get_node (root ?e) (point_path ?at_end) = Some (Text ''ab'' [])"
    by code_simp
  have g1: "get_node (root ?e1) (point_path ?at_end) = Some (Text ''ab'' [])"
    by code_simp
  have g2: "get_node (root ?e1) (point_path ?inside) = Some (Text ''ab'' [])"
    by code_simp
  have b: "point_offset ?at_end = 0 \<or> point_offset ?at_end = length ''ab''"
    by simp
  have nb: "\<not> (point_offset ?inside = 0 \<or> point_offset ?inside = length ''ab'')"
    by simp
  have d: "dirty_paths ?e = []"
    by (simp add: createEditor_def)
  have o: "operations ?e1 = []"
    by (simp add: createEditor_def)
  note t0 = mp [OF splitNodes_edge_noop [where e = ?e and at = ?at_end and s = "''ab''"
        and ps = "[]" and nrm = ?nrm and dr = ?dr] g]
  note t1 = mp [OF splitNodes_edge_noop [where e = ?e1 and at = ?at_end and s = "''ab''"
        and ps = "[]" and nrm = ?nrm and dr = ?dr] g1]
  note t2 = mp [OF splitNodes_edge_noop [where e = ?e1 and at = ?inside and s = "''ab''"
        and ps = "[]" and nrm = ?nrm and dr = ?dr] g2]
  have s0: "splitNodes ?nrm ?e ?at_end = Inr ?e"
    by (rule mp [OF conjunct2 [OF mp [OF conjunct1 [OF conjunct2 [OF t0]] b]] d])
  have "splitNodes ?nrm ?e1 ?at_end = (if batch_depth ?e1 = 0 then ?nrm ?e1 else Inr ?e1)"
    by (rule conjunct1 [OF mp [OF conjunct1 [OF conjunct2 [OF t1]] b]])
  then have s1: "splitNodes ?nrm ?e1 ?at_end = Inr ?e1"
    by simp
  have "\<exists>e2. apply (?e1\<lparr>batch_depth := batch_depth ?e1 + 1\<rparr>)
                 (Split_node (point_path ?inside) (point_offset ?inside)) = Inr e2 \<and>
              operations e2 =
                operations ?e1 @ [Split_node (point_path ?inside) (point_offset ?inside)] \<and>
              splitNodes ?nrm ?e1 ?inside =
                (if batch_depth ?e1 = 0 then ?nrm (e2\<lparr>batch_depth := 0\<rparr>)
                 else Inr (e2\<lparr>batch_depth := batch_depth ?e1\<rparr>))"
    by (rule mp [OF conjunct2 [OF conjunct2 [OF t2]] nb])
  then have s2: "\<exists>e2. apply (?e1\<lparr>batch_depth := 2\<rparr>) (Split_node [0] 1) = Inr e2 \<and>
             operations e2 = [Split_node [0] 1] \<and>
             splitNodes ?nrm ?e1 ?inside = Inr (e2\<lparr>batch_depth := 1\<rparr>)"
    unfolding o by (simp add: numeral_2_eq_2)
  from g g1 have g': "get_node (root ?e) [0] = Some (Text ''ab'' [])"
    "get_node (root ?e1) [0] = Some (Text ''ab'' [])"
    by simp_all
  show ?thesis unfolding Let_def by (intro conjI g' s0 s1 s2)
qed

subsection \<open>\<^verbatim>\<open>insertNode\<close> at a point\<close>

text \<open>
  \<^verbatim>\<open>insertNode\<close> at a point of a text leaf, or at a collapsed range (given, or the
  selection) whose anchor is that point, in terms of the answer \<open>b\<close> of the edge test
  that the source stores in \<^verbatim>\<open>isAtEnd\<close>: the split under a path reference, the
  \<^verbatim>\<open>insert_node\<close> at the next sibling of the path of the point, which succeeds, and
  the call as a batch scope around them and the move of the selection.
\<close>

lemma insertNode_point_by_edge_test:
  assumes edge0: "isEdge e pt (point_path pt) = Inr b"
    and loc: "at = Some (At_point pt) \<or>
      (\<exists>r. isCollapsed r \<and> anchor r = pt \<and>
           (at = Some (At_range r) \<or> (at = None \<and> selection e = Some r)))"
  shows "(\<exists>e3 e4.
        split_with_ref nrm (e\<lparr>batch_depth := batch_depth e + 1\<rparr>) pt =
          Inr (e3, Some (if b then point_path pt
                         else butlast (point_path pt) @ [last (point_path pt) + 1])) \<and>
        operations e3 =
          operations e @ (if b then [] else [Split_node (point_path pt) (point_offset pt)]) \<and>
        apply e3 (Insert_node (butlast (point_path pt) @ [last (point_path pt) + 1]) n) = Inr e4 \<and>
        insertNode nrm delete_range e n (Some \<lparr>opt_select = so, opt_at = at\<rparr>) =
          withoutNormalizing nrm e (\<lambda>e'.
            if so = Some False then Inr e4
            else (case Editor_point_end e4
                         (butlast (point_path pt) @ [last (point_path pt) + 1]) of
                    Inl x \<Rightarrow> Inl x
                  | Inr pt' \<Rightarrow> select e4 pt')))"
proof -
  from edge0 loc have asm: "isEdge e pt (point_path pt) = Inr b \<and>
   (at = Some (At_point pt) \<or>
    (\<exists>r. isCollapsed r \<and> anchor r = pt \<and>
         (at = Some (At_range r) \<or> (at = None \<and> selection e = Some r))))"
    by blast
  then have edge: "isEdge e pt (point_path pt) = Inr b" by blast
  let ?p = "point_path pt" and ?off = "point_offset pt"
  let ?q = "butlast ?p @ [last ?p + 1]"
  let ?ein = "e\<lparr>batch_depth := batch_depth e + 1\<rparr>"
  let ?op = "Split_node ?p ?off"
  from isEdge_Inr_text [OF edge] obtain s tp where t: "get_node (root e) ?p = Some (Text s tp)"
    by blast
  from get_node_root_text_snoc [OF t] obtain ps kids where ne: "?p \<noteq> []"
    and par: "get_node (root e) (butlast ?p) = Some (Element ps kids)"
    and idx: "at_index kids (last ?p) = Some (Text s tp)"
    by blast
  from ne have psplit: "butlast ?p @ [last ?p] = ?p" by simp
  from idx have rng: "0 \<le> last ?p" "last ?p < int (length kids)"
    by (auto simp: at_index_def split: if_splits)
  obtain e1 i where pr: "pathRef ?ein ?p = (e1, i)" by (cases "pathRef ?ein ?p")
  note e1 = pathRef_fields [OF pr]
  have edge1: "isEdge e1 pt ?p = Inr b" using edge e1(5) by (simp add: isEdge_def)
  have d1: "0 < batch_depth e1" using e1(3) by simp
  have "\<exists>e3. split_with_ref nrm ?ein pt = Inr (e3, Some (if b then ?p else ?q)) \<and>
          operations e3 = operations e @ (if b then [] else [?op]) \<and>
          batch_depth e3 = batch_depth e + 1 \<and>
          (\<exists>kids'. get_node (root e3) (butlast ?p) = Some (Element ps kids') \<and>
              int (length kids) \<le> int (length kids'))"
  proof (cases b)
    case True
    with edge1 have "splitNodes nrm e1 pt = withoutNormalizing nrm e1 Inr"
      by (simp add: splitNodes_def withoutNormalizing_def)
    with d1 have s: "splitNodes nrm e1 pt = Inr e1" by (simp add: withoutNormalizing_Inr)
    have "path_refs e1 = map (\<lambda>(i, r). (i, id r)) (path_refs e1)" by (simp add: map_id_refs)
    from unref_pathRef_transformed [OF pr this]
    have "unref e1 i = (?ein, Some ?p)" using e1(6) by (simp add: map_id_refs)
    with s pr have "split_with_ref nrm ?ein pt = Inr (?ein, Some ?p)"
      by (simp add: split_with_ref_def)
    with True par show ?thesis by auto
  next
    case False
    let ?e1' = "e1\<lparr>batch_depth := batch_depth e1 + 1\<rparr>"
    from False edge1 have sn: "splitNodes nrm e1 pt = withoutNormalizing nrm e1 (\<lambda>e. apply e ?op)"
      by (simp add: splitNodes_def withoutNormalizing_def)
    from par e1(5) have "get_node (root ?e1') (butlast ?p) = Some (Element ps kids)" by simp
    from apply_split_text [OF this idx, of ?off] psplit
    obtain e2' kids' where a: "apply ?e1' ?op = Inr e2'"
      and g: "get_node (root e2') (butlast ?p) = Some (Element ps kids')"
      and l: "length kids' = Suc (length kids)"
      and o: "operations e2' = operations ?e1' @ [?op]"
      and bd: "batch_depth e2' = batch_depth e1 + 1"
      and rf: "path_refs e2' = map (\<lambda>(j, r). (j, PathRef_transform r ?op)) (path_refs ?e1')"
      by auto
    let ?e2 = "e2'\<lparr>batch_depth := batch_depth e1\<rparr>"
    from withoutNormalizing_nested [where fn = "\<lambda>e. apply e ?op", OF d1 a bd] sn have s: "splitNodes nrm e1 pt = Inr ?e2"
      by simp
    have "path_refs ?e2 = map (\<lambda>(j, r). (j, PathRef_transform r ?op)) (path_refs e1)"
      using rf by simp
    from unref_pathRef_transformed [OF pr this]
    have u: "unref ?e2 i =
      (?e2\<lparr>path_refs := map (\<lambda>(j, r). (j, PathRef_transform r ?op)) (path_refs ?ein)\<rparr>, Some ?q)"
      using ne by (simp add: PathRef_transform_def transform_split_own_forward)
    let ?e3 = "?e2\<lparr>path_refs := map (\<lambda>(j, r). (j, PathRef_transform r ?op)) (path_refs ?ein)\<rparr>"
    from s pr u have "split_with_ref nrm ?ein pt = Inr (?e3, Some ?q)"
      by (simp add: split_with_ref_def)
    moreover have "operations ?e3 = operations e @ [?op]" using o e1(2) by simp
    moreover have "batch_depth ?e3 = batch_depth e + 1" using e1(3) by simp
    moreover have "get_node (root ?e3) (butlast ?p) = Some (Element ps kids')"
      using g by (simp add: root_def)
    ultimately show ?thesis using False l by auto
  qed
  then obtain e3 kids' where sw: "split_with_ref nrm ?ein pt = Inr (e3, Some (if b then ?p else ?q))"
    and o3: "operations e3 = operations e @ (if b then [] else [?op])"
    and g3: "get_node (root e3) (butlast ?p) = Some (Element ps kids')"
    and l3: "int (length kids) \<le> int (length kids')"
    by blast
  from rng l3 have "0 \<le> last ?p + 1" "last ?p + 1 \<le> int (length kids')" by simp_all
  from apply_insert_succeeds [OF g3 this, of n] obtain e4 where
    a4: "apply e3 (Insert_node ?q n) = Inr e4" by blast
  have ip: "insertNode_point nrm ?ein (Some (At_point pt)) = Inr (e3, Some ?q)"
    using edge sw ne by (cases b) (simp_all add: insertNode_point_def next_nonempty)
  have rg: "insertNode_range delete_range ?ein
      (case at of None \<Rightarrow> map_option At_range (selection ?ein) | Some l \<Rightarrow> Some l) =
        Inr (?ein, Some (At_point pt))"
    using asm by (auto simp: insertNode_range_def)
  have "insertNode nrm delete_range e n (Some \<lparr>opt_select = so, opt_at = at\<rparr>) =
          withoutNormalizing nrm e (\<lambda>e'.
            if so = Some False then Inr e4
            else (case Editor_point_end e4 ?q of Inl x \<Rightarrow> Inl x | Inr pt' \<Rightarrow> select e4 pt'))"
    using ip a4 rg
    by (cases so) (auto simp: insertNode_def withoutNormalizing_def insertNode_insert_def)
  with sw o3 a4 show "\<exists>e3 e4.
        split_with_ref nrm ?ein pt = Inr (e3, Some (if b then ?p else ?q)) \<and>
        operations e3 = operations e @ (if b then [] else [?op]) \<and>
        apply e3 (Insert_node ?q n) = Inr e4 \<and>
        insertNode nrm delete_range e n (Some \<lparr>opt_select = so, opt_at = at\<rparr>) =
          withoutNormalizing nrm e (\<lambda>e'.
            if so = Some False then Inr e4
            else (case Editor_point_end e4 ?q of Inl x \<Rightarrow> Inl x | Inr pt' \<Rightarrow> select e4 pt'))"
    by blast
qed

text \<open>
  Claim C5 says that \<^verbatim>\<open>insertNode\<close> at a point issues \<^verbatim>\<open>insert_node\<close> at
  the computed split path when the point was at a node boundary, and at the next sibling
  of that path when a real split occurred. The code does the opposite. In the leaf
  \<open>''ab''\<close> at path \<open>[0]\<close>: at offset 2 (the end edge) nothing is split, the released
  reference is \<open>[0]\<close>, and the operation goes to \<open>[1]\<close>, its next sibling; at
  offset 1 the leaf is split, the released reference is \<open>[1]\<close>, and the operation goes
  to \<open>[1]\<close> itself, not to \<open>[2]\<close>. The first six conjuncts are inside the scope of
  \<^verbatim>\<open>insertNode\<close>, the last two are whole calls.
\<close>

theorem insertNode_at_point_counterexample:
  "(let dr = (\<lambda>e r. Inl (Error ''Transforms.delete''));
        nrm = Editor_normalize dr;
        e = createEditor\<lparr>children := [Text ''ab'' []]\<rparr>;
        e1 = e\<lparr>batch_depth := 1\<rparr>;
        e2 = \<lparr>children = [Text ''a'' [], Text ''b'' []], selection = None,
               operations = [Split_node [0] 1], marks = None,
               dirty_paths = [[], [0], [1]], path_refs = [], batch_depth = 1,
               microtasks = [NotifyAndReset], onChange_calls = 0\<rparr>;
        x = Text ''x'' [(''bold'', JBool True)];
        at_end = \<lparr>point_path = [0], point_offset = 2\<rparr>;
        inside = \<lparr>point_path = [0], point_offset = 1\<rparr>
    in isEdge e1 at_end [0] = Inr True \<and>
       split_with_ref nrm e1 at_end = Inr (e1, Some [0]) \<and>
       insertNode_point nrm e1 (Some (At_point at_end)) = Inr (e1, Some [1]) \<and>
       isEdge e1 inside [0] = Inr False \<and>
       split_with_ref nrm e1 inside = Inr (e2, Some [1]) \<and>
       insertNode_point nrm e1 (Some (At_point inside)) = Inr (e2, Some [1]) \<and>
       insertNode nrm dr e x
           (Some \<lparr>opt_select = Some False, opt_at = Some (At_point at_end)\<rparr>) =
         Inr \<lparr>children = [Text ''ab'' [], x], selection = None,
              operations = [Insert_node [1] x], marks = None, dirty_paths = [],
              path_refs = [], batch_depth = 0, microtasks = [NotifyAndReset],
              onChange_calls = 0\<rparr> \<and>
       insertNode nrm dr e x
           (Some \<lparr>opt_select = Some False, opt_at = Some (At_point inside)\<rparr>) =
         Inr \<lparr>children = [Text ''a'' [], x, Text ''b'' []], selection = None,
              operations = [Split_node [0] 1, Insert_node [1] x], marks = None,
              dirty_paths = [], path_refs = [], batch_depth = 0,
              microtasks = [NotifyAndReset, NotifyAndReset], onChange_calls = 0\<rparr>)"
  by code_simp

text \<open>
  Claim C5, amended. In \<^verbatim>\<open>insertNode(editor, node, {at})\<close> where \<open>at\<close> is a point
  in a text leaf past its start (the offset is positive and at most the length of the
  text), or a collapsed range (given, or the selection) whose anchor is that point: when
  the point is at the end edge of its leaf (no split occurs) the released path reference
  is the path of the leaf and \<^verbatim>\<open>insert_node\<close> is issued at its next sibling;
  otherwise (a real split occurs) the released reference is already that next sibling,
  the new right-hand half, and \<^verbatim>\<open>insert_node\<close> is issued at the reference itself.
  The operation succeeds, and the call is a batch scope around the split (if any), this
  operation and, unless \<open>select\<close> is false, the move of the selection. Nothing is
  said here about a point at the start of its leaf.
\<close>

theorem insertNode_at_point:
  "get_node (root e) (point_path pt) = Some (Text s ps) \<and>
   0 < point_offset pt \<and> point_offset pt \<le> length s \<and>
   (at = Some (At_point pt) \<or>
    (\<exists>r. isCollapsed r \<and> anchor r = pt \<and>
         (at = Some (At_range r) \<or> (at = None \<and> selection e = Some r)))) \<longrightarrow>
     (\<exists>e3 e4.
        split_with_ref nrm (e\<lparr>batch_depth := batch_depth e + 1\<rparr>) pt =
          Inr (e3, Some (if point_offset pt = length s then point_path pt
                         else butlast (point_path pt) @ [last (point_path pt) + 1])) \<and>
        operations e3 =
          operations e @ (if point_offset pt = length s then []
                          else [Split_node (point_path pt) (point_offset pt)]) \<and>
        apply e3 (Insert_node (butlast (point_path pt) @ [last (point_path pt) + 1]) n) = Inr e4 \<and>
        insertNode nrm delete_range e n (Some \<lparr>opt_select = so, opt_at = at\<rparr>) =
          withoutNormalizing nrm e (\<lambda>e'.
            if so = Some False then Inr e4
            else (case Editor_point_end e4
                         (butlast (point_path pt) @ [last (point_path pt) + 1]) of
                    Inl x \<Rightarrow> Inl x
                  | Inr pt' \<Rightarrow> select e4 pt')))"
proof
  assume asm: "get_node (root e) (point_path pt) = Some (Text s ps) \<and>
   0 < point_offset pt \<and> point_offset pt \<le> length s \<and>
   (at = Some (At_point pt) \<or>
    (\<exists>r. isCollapsed r \<and> anchor r = pt \<and>
         (at = Some (At_range r) \<or> (at = None \<and> selection e = Some r))))"
  then have edge: "isEdge e pt (point_path pt) = Inr (point_offset pt = length s)"
    by (auto simp: isEdge_def equals_iff)
  from asm have loc: "at = Some (At_point pt) \<or>
    (\<exists>r. isCollapsed r \<and> anchor r = pt \<and>
         (at = Some (At_range r) \<or> (at = None \<and> selection e = Some r)))"
    by blast
  show "\<exists>e3 e4.
        split_with_ref nrm (e\<lparr>batch_depth := batch_depth e + 1\<rparr>) pt =
          Inr (e3, Some (if point_offset pt = length s then point_path pt
                         else butlast (point_path pt) @ [last (point_path pt) + 1])) \<and>
        operations e3 =
          operations e @ (if point_offset pt = length s then []
                          else [Split_node (point_path pt) (point_offset pt)]) \<and>
        apply e3 (Insert_node (butlast (point_path pt) @ [last (point_path pt) + 1]) n) = Inr e4 \<and>
        insertNode nrm delete_range e n (Some \<lparr>opt_select = so, opt_at = at\<rparr>) =
          withoutNormalizing nrm e (\<lambda>e'.
            if so = Some False then Inr e4
            else (case Editor_point_end e4
                         (butlast (point_path pt) @ [last (point_path pt) + 1]) of
                    Inl x \<Rightarrow> Inl x
                  | Inr pt' \<Rightarrow> select e4 pt'))"
    by (rule insertNode_point_by_edge_test [OF edge loc])
qed

theorem insertNode_at_point_witness:
  "(let dr = (\<lambda>e r. Inl (Error ''Transforms.delete''));
        nrm = Editor_normalize dr;
        e = createEditor\<lparr>children := [Text ''ab'' []]\<rparr>;
        x = Text ''x'' [(''bold'', JBool True)];
        at_end = \<lparr>point_path = [0], point_offset = 2\<rparr>;
        inside = \<lparr>point_path = [0], point_offset = 1\<rparr>
    in get_node (root e) [0] = Some (Text ''ab'' []) \<and>
       (\<exists>e3 e4.
          split_with_ref nrm (e\<lparr>batch_depth := 1\<rparr>) at_end = Inr (e3, Some [0]) \<and>
          operations e3 = [] \<and>
          apply e3 (Insert_node [1] x) = Inr e4 \<and>
          insertNode nrm dr e x
              (Some \<lparr>opt_select = Some False, opt_at = Some (At_point at_end)\<rparr>) =
            withoutNormalizing nrm e (\<lambda>e'. Inr e4)) \<and>
       (\<exists>e3 e4.
          split_with_ref nrm (e\<lparr>batch_depth := 1\<rparr>) inside = Inr (e3, Some [1]) \<and>
          operations e3 = [Split_node [0] 1] \<and>
          apply e3 (Insert_node [1] x) = Inr e4 \<and>
          insertNode nrm dr e x
              (Some \<lparr>opt_select = Some False, opt_at = Some (At_point inside)\<rparr>) =
            withoutNormalizing nrm e (\<lambda>e'. Inr e4)))"
proof -
  let ?dr = "\<lambda>(e::editor) (r::range). (Inl (Error ''Transforms.delete'') :: error + editor \<times> point option)"
  let ?nrm = "Editor_normalize ?dr"
  let ?e = "createEditor\<lparr>children := [Text ''ab'' []]\<rparr>"
  let ?x = "Text ''x'' [(''bold'', JBool True)]"
  let ?at_end = "\<lparr>point_path = [0], point_offset = 2\<rparr>"
  let ?inside = "\<lparr>point_path = [0], point_offset = 1\<rparr>"
  let ?so = "Some False"
  have g: "get_node (root ?e) [0] = Some (Text ''ab'' [])"
    by code_simp
  have d: "batch_depth ?e + 1 = 1" "operations ?e = []"
    by (simp_all add: createEditor_def)
  from insertNode_at_point [where e = ?e and pt = ?at_end and s = "''ab''" and ps = "[]"
      and nrm = ?nrm and at = "Some (At_point ?at_end)" and n = ?x and delete_range = ?dr
      and so = ?so] g
  have "\<exists>e3 e4.
          split_with_ref ?nrm (?e\<lparr>batch_depth := batch_depth ?e + 1\<rparr>) ?at_end =
            Inr (e3, Some [0]) \<and>
          operations e3 = operations ?e @ [] \<and>
          apply e3 (Insert_node [1] ?x) = Inr e4 \<and>
          insertNode ?nrm ?dr ?e ?x
              (Some \<lparr>opt_select = ?so, opt_at = Some (At_point ?at_end)\<rparr>) =
            withoutNormalizing ?nrm ?e (\<lambda>e'. Inr e4)"
    by simp
  then have i2: "\<exists>e3 e4.
          split_with_ref ?nrm (?e\<lparr>batch_depth := 1\<rparr>) ?at_end = Inr (e3, Some [0]) \<and>
          operations e3 = [] \<and>
          apply e3 (Insert_node [1] ?x) = Inr e4 \<and>
          insertNode ?nrm ?dr ?e ?x
              (Some \<lparr>opt_select = Some False, opt_at = Some (At_point ?at_end)\<rparr>) =
            withoutNormalizing ?nrm ?e (\<lambda>e'. Inr e4)"
    unfolding d by simp
  from insertNode_at_point [where e = ?e and pt = ?inside and s = "''ab''" and ps = "[]"
      and nrm = ?nrm and at = "Some (At_point ?inside)" and n = ?x and delete_range = ?dr
      and so = ?so] g
  have "\<exists>e3 e4.
          split_with_ref ?nrm (?e\<lparr>batch_depth := batch_depth ?e + 1\<rparr>) ?inside =
            Inr (e3, Some [1]) \<and>
          operations e3 = operations ?e @ [Split_node [0] 1] \<and>
          apply e3 (Insert_node [1] ?x) = Inr e4 \<and>
          insertNode ?nrm ?dr ?e ?x
              (Some \<lparr>opt_select = ?so, opt_at = Some (At_point ?inside)\<rparr>) =
            withoutNormalizing ?nrm ?e (\<lambda>e'. Inr e4)"
    by simp
  then have i1: "\<exists>e3 e4.
          split_with_ref ?nrm (?e\<lparr>batch_depth := 1\<rparr>) ?inside = Inr (e3, Some [1]) \<and>
          operations e3 = [Split_node [0] 1] \<and>
          apply e3 (Insert_node [1] ?x) = Inr e4 \<and>
          insertNode ?nrm ?dr ?e ?x
              (Some \<lparr>opt_select = Some False, opt_at = Some (At_point ?inside)\<rparr>) =
            withoutNormalizing ?nrm ?e (\<lambda>e'. Inr e4)"
    unfolding d by simp
  show ?thesis unfolding Let_def by (intro conjI g i2 i1)
qed

subsection \<open>\<^verbatim>\<open>normalizeNode\<close> on an element without children\<close>

lemma normalizeNode_empty:
  assumes g: "get_node (root e) path = Some (Element ps [])"
  shows "\<exists>e4. normalizeNode nrm dr e (Element ps [], path) =
             withoutNormalizing nrm e (\<lambda>e'. Inr e4) \<and>
           get_node (root e4) path = Some (Element ps [Text [] []]) \<and>
           operations e4 = operations e @
             [Insert_node (path @ [0]) (Text [] []),
              Set_selection (Some \<lparr>anchor = \<lparr>point_path = path @ [0], point_offset = 0\<rparr>,
                                    focus = \<lparr>point_path = path @ [0], point_offset = 0\<rparr>\<rparr>)]"
proof -
  let ?ein = "e\<lparr>batch_depth := batch_depth e + 1\<rparr>"
  let ?pt = "\<lparr>point_path = path @ [0], point_offset = 0\<rparr>"
  let ?sel = "Set_selection (Some \<lparr>anchor = ?pt, focus = ?pt\<rparr>)"
  from g have "get_node (root ?ein) path = Some (Element ps [])" by simp
  from apply_insert_succeeds [OF this, of 0 "Text [] []"] obtain e1 where
    a1: "apply ?ein (Insert_node (path @ [0]) (Text [] [])) = Inr e1"
    and g1: "get_node (root e1) path = Some (Element ps [Text [] []])"
    and o1: "operations e1 = operations e @ [Insert_node (path @ [0]) (Text [] [])]"
    by auto
  from g1 have "get_node (root e1) (path @ [0]) = Some (Text [] [])"
    by (simp add: get_node_snoc at_index_def)
  then have pe: "Editor_point_end e1 (path @ [0]) = Inr ?pt"
    by (simp add: Editor_point_end_def)
  obtain e4 where a4: "apply e1 ?sel = Inr e4" by (simp add: apply_Set_selection)
  from apply_fields(1) [OF a4] o1 have o4: "operations e4 = operations e @
             [Insert_node (path @ [0]) (Text [] []), ?sel]" by simp
  from apply_children [OF a4] have "children e4 = children e1"
    by (simp add: transform_children_def)
  with g1 have g4: "get_node (root e4) path = Some (Element ps [Text [] []])"
    by (simp add: root_def)
  have "normalizeNode nrm dr e (Element ps [], path) = withoutNormalizing nrm e (\<lambda>e'. Inr e4)"
    using a1 pe a4
    by (simp add: normalizeNode_def insertNode_def withoutNormalizing_def insertNode_range_def
        insertNode_point_def insertNode_insert_def select_def)
  with g4 o4 show ?thesis by blast
qed

lemma normalizeNode_empty_depth:
  assumes g: "get_node (root e) path = Some (Element ps [])" and d: "0 < batch_depth e"
  shows "\<exists>e4. normalizeNode nrm dr e (Element ps [], path) = Inr e4 \<and>
           get_node (root e4) path = Some (Element ps [Text [] []]) \<and>
           batch_depth e4 = batch_depth e"
proof -
  let ?ein = "e\<lparr>batch_depth := batch_depth e + 1\<rparr>"
  let ?pt = "\<lparr>point_path = path @ [0], point_offset = 0\<rparr>"
  let ?sel = "Set_selection (Some \<lparr>anchor = ?pt, focus = ?pt\<rparr>)"
  from g have "get_node (root ?ein) path = Some (Element ps [])" by simp
  from apply_insert_succeeds [OF this, of 0 "Text [] []"] obtain e1 where
    a1: "apply ?ein (Insert_node (path @ [0]) (Text [] [])) = Inr e1"
    and g1: "get_node (root e1) path = Some (Element ps [Text [] []])"
    and b1: "batch_depth e1 = batch_depth e + 1"
    by auto
  from g1 have "get_node (root e1) (path @ [0]) = Some (Text [] [])"
    by (simp add: get_node_snoc at_index_def)
  then have pe: "Editor_point_end e1 (path @ [0]) = Inr ?pt"
    by (simp add: Editor_point_end_def)
  obtain e4 where a4: "apply e1 ?sel = Inr e4" by (simp add: apply_Set_selection)
  from apply_fields(2) [OF a4] b1 have b4: "batch_depth e4 = batch_depth e + 1" by simp
  from apply_children [OF a4] have "children e4 = children e1"
    by (simp add: transform_children_def)
  with g1 have g4: "get_node (root e4) path = Some (Element ps [Text [] []])"
    by (simp add: root_def)
  have "normalizeNode nrm dr e (Element ps [], path) = withoutNormalizing nrm e (\<lambda>e'. Inr e4)"
    using a1 pe a4
    by (simp add: normalizeNode_def insertNode_def withoutNormalizing_def insertNode_range_def
        insertNode_point_def insertNode_insert_def select_def)
  also have "\<dots> = Inr (e4\<lparr>batch_depth := batch_depth e\<rparr>)"
    using d b4 by (simp add: withoutNormalizing_def)
  finally show ?thesis using g4 by (auto simp: root_def)
qed

text \<open>
  A removal on its own, with nothing pending: the dirty paths are the ancestors of the
  removed node, the last of them its parent, which the pass takes first.
\<close>

lemma fold_add_distinct:
  "distinct (acc @ xs) \<Longrightarrow> fold (\<lambda>path. add (Some path)) xs acc = acc @ xs"
  by (induction xs arbitrary: acc) (auto simp: add_def)

lemma apply_dirty_paths_exact:
  assumes "apply e op = Inr e'" and "getDirtyPaths op = Inr nd"
  shows "dirty_paths e' = fold (\<lambda>path. add (Some path)) nd
            (fold (\<lambda>oldPath. add (transform (Some oldPath) op None)) (dirty_paths e) [])"
  using assms
  by (cases op; auto simp: apply_def Let_def Transforms_transform_def split: sum.splits)

lemma removeNode_only_child_first_round:
  assumes b: "batch_depth e = 0" and d: "dirty_paths e = []"
    and g: "get_node (root e) pp = Some (Element ps [c])"
  shows "\<exists>e4. get_node (root e4) pp = Some (Element ps [Text [] []]) \<and>
           removeNode (Editor_normalize dr) e (pp @ [0]) =
             (case Editor_normalize_loop dr (42 * length pp + 41) e4 of
                Inl x \<Rightarrow> Inl x
              | Inr e5 \<Rightarrow> Inr (e5\<lparr>batch_depth := batch_depth e5 - 1\<rparr>))"
proof -
  let ?op = "Remove_node (pp @ [0])"
  let ?ein = "e\<lparr>batch_depth := batch_depth e + 1\<rparr>"
  have f: "remove_child 0 [c] = Inr []" by (simp add: remove_child_def)
  have tc: "\<And>cs. transform_children cs ?op = at_parent (pp @ [0]) remove_child cs"
    by (simp add: transform_children_def)
  have gd: "getDirtyPaths ?op = Inr (prefixes pp)"
    by (simp add: getDirtyPaths_def ancestors_prefixes)
  from g have "get_node (root ?ein) pp = Some (Element ps [c])" by simp
  from apply_at_parent [where f = remove_child, OF this f tc gd] obtain e1 where
    a1: "apply ?ein ?op = Inr e1"
    and g1: "get_node (root e1) pp = Some (Element ps [])"
    and b1: "batch_depth e1 = 1"
    using b by auto
  from apply_dirty_paths_exact [OF a1 gd] d
  have d1: "dirty_paths e1 = prefixes pp"
    using fold_add_distinct [of "[]" "prefixes pp"] by (simp add: distinct_prefixes)
  let ?e1 = "e1\<lparr>batch_depth := 0\<rparr>"
  have r: "removeNode (Editor_normalize dr) e (pp @ [0]) = Editor_normalize dr ?e1"
    using a1 b1 by (simp add: removeNode_def withoutNormalizing_def)
  have e11: "?e1\<lparr>batch_depth := 1\<rparr> = e1" using b1 by simp
  have fuel: "42 * length (prefixes pp) = Suc (42 * length pp + 41)" by simp
  let ?e2 = "e1\<lparr>dirty_paths := butlast (prefixes pp)\<rparr>"
  have g2: "get_node (root ?e2) pp = Some (Element ps [])" using g1 by (simp add: root_def)
  have b2: "0 < batch_depth ?e2" using b1 by simp
  from normalizeNode_empty_depth [OF g2 b2, of Inr dr] obtain e4 where
    n4: "normalizeNode Inr dr ?e2 (Element ps [], pp) = Inr e4"
    and g4: "get_node (root e4) pp = Some (Element ps [Text [] []])"
    by blast
  have ne: "prefixes pp \<noteq> []" by simp
  have l: "last (prefixes pp) = pp" by simp
  have step: "Editor_normalize_loop dr (Suc m) e1 = Editor_normalize_loop dr m e4" for m
    using d1 ne l g2 n4 by (simp add: Let_def del: prefixes_not_Nil)
  have "Editor_normalize dr ?e1 =
      (case Editor_normalize_loop dr (42 * length (prefixes pp)) e1 of
                Inl x \<Rightarrow> Inl x
              | Inr e5 \<Rightarrow> Inr (e5\<lparr>batch_depth := batch_depth e5 - 1\<rparr>))"
    using d1 e11
    by (simp add: Editor_normalize_def withoutNormalizing_def Let_def
        del: Editor_normalize_loop.simps split: sum.splits)
  also have "\<dots> =
      (case Editor_normalize_loop dr (42 * length pp + 41) e4 of
                Inl x \<Rightarrow> Inl x
              | Inr e5 \<Rightarrow> Inr (e5\<lparr>batch_depth := batch_depth e5 - 1\<rparr>))"
    unfolding fuel step ..
  finally show ?thesis using r g4 by auto
qed

text \<open>
  Claim C7. \<^verbatim>\<open>normalizeNode\<close> gives every element without children that it visits
  a single empty text leaf (\<open>normalizeNode_empty\<close> above), so after a completed
  pass every element reachable from a dirty path should have a child, and an element
  emptied by \<^verbatim>\<open>remove_node\<close> should gain one. It does when the pass follows the
  removal directly (last conjunct). It does not when another operation moves the
  element before the pass runs: \<^verbatim>\<open>apply\<close> rebases the old dirty paths with
  \<^verbatim>\<open>Path.transform\<close>, as its comment says it must, but the \<^verbatim>\<open>insert_node\<close> case
  of \<^verbatim>\<open>Path.transform\<close> moves a path only when the inserted path is equal to it or
  ends before it, not when the insertion is at or before one of its ancestors. Here, in
  one batch, the only child of the element at \<open>[1, 0]\<close> is removed and then a leaf is
  inserted at \<open>[1]\<close>. The emptied element is at \<open>[2, 0]\<close> now; its dirty path
  \<open>[1, 0]\<close> stays as it is and leads nowhere, and its parent's dirty path \<open>[1]\<close>
  becomes \<open>[2]\<close> (second conjunct, the state when the batch ends, before the pass). The
  pass completes, no dirty path is left, and the element emptied by \<^verbatim>\<open>remove_node\<close>
  is left without a child (third conjunct), against rule 1 in the comments of
  \<^verbatim>\<open>normalizeNode\<close>: every element keeps at least one text child.
\<close>

theorem emptied_element_left_without_child:
  "(let dr = (\<lambda>e r. Inl (Error ''Transforms.delete''));
        nrm = Editor_normalize dr;
        c = Text ''c'' [(''bold'', JBool True)];
        e = createEditor\<lparr>children :=
              [Text ''a'' [], Element [] [Element [] [Text ''x'' []]]]\<rparr>;
        batch = (\<lambda>e. case removeNode nrm e [1, 0, 0] of
                        Inl x \<Rightarrow> Inl x
                      | Inr e1 \<Rightarrow>
                          insertNode nrm dr e1 c
                            (Some \<lparr>opt_select = Some False, opt_at = Some (At_path [1])\<rparr>));
        caret = \<lparr>point_path = [1, 0, 0], point_offset = 0\<rparr>
    in transform (Some [1, 0]) (Insert_node [1] c) None = Some [1, 0] \<and>
       withoutNormalizing Inr e batch =
         Inr \<lparr>children = [Text ''a'' [], c, Element [] [Element [] []]],
              selection = None,
              operations = [Remove_node [1, 0, 0], Insert_node [1] c],
              marks = None, dirty_paths = [[], [2], [1, 0], [1]], path_refs = [],
              batch_depth = 0, microtasks = [NotifyAndReset, NotifyAndReset],
              onChange_calls = 0\<rparr> \<and>
       withoutNormalizing nrm e batch =
         Inr \<lparr>children = [Text ''a'' [], c, Element [] [Element [] []]],
              selection = None,
              operations = [Remove_node [1, 0, 0], Insert_node [1] c],
              marks = None, dirty_paths = [], path_refs = [], batch_depth = 0,
              microtasks = [NotifyAndReset, NotifyAndReset], onChange_calls = 0\<rparr> \<and>
       removeNode nrm e [1, 0, 0] =
         Inr \<lparr>children = [Text ''a'' [], Element [] [Element [] [Text [] []]]],
              selection = Some \<lparr>anchor = caret, focus = caret\<rparr>,
              operations =
                [Remove_node [1, 0, 0], Insert_node [1, 0, 0] (Text [] []),
                 Set_selection (Some \<lparr>anchor = caret, focus = caret\<rparr>)],
              marks = None, dirty_paths = [], path_refs = [], batch_depth = 0,
              microtasks = [NotifyAndReset, NotifyAndReset, NotifyAndReset],
              onChange_calls = 0\<rparr>)"
  by code_simp

end
